theory Spec2Isabelle
  imports Main "HOL-Library.AList" "HOL-Library.Multiset"
begin

section \<open>Exceptions\<close>

text \<open>
  The exceptions that the modelled code can raise and does not catch where they arise.
  A function that can raise returns \<open>error + 'a\<close>.
\<close>

datatype error =
  AttributeError | IndexError | KeyError | OverflowError | TypeError | UnicodeDecodeError
  | ZeroDivisionError

definition bind_err :: "error + 'a \<Rightarrow> ('a \<Rightarrow> error + 'b) \<Rightarrow> error + 'b" where
  "bind_err r f = (case r of Inl err \<Rightarrow> Inl err | Inr x \<Rightarrow> f x)"

text \<open>A loop that builds a list and stops at the first exception.\<close>

fun map_err :: "('a \<Rightarrow> error + 'b) \<Rightarrow> 'a list \<Rightarrow> error + 'b list" where
  "map_err f [] = Inr []"
| "map_err f (x # xs) =
     bind_err (f x) (\<lambda>y. bind_err (map_err f xs) (\<lambda>ys. Inr (y # ys)))"

section \<open>Answer normalisation (\<^verbatim>\<open>normalize_answer\<close>, telegrambot.py lines 58-60)\<close>

text \<open>
  Python strings are sequences of code points. The handlers are modelled on text of the
  code points 0 to 255 (ASCII and Latin-1): one \<^typ>\<open>char\<close> is one code point, and a Python
  string of length one is a one-element \<^typ>\<open>string\<close>. On that range \<^verbatim>\<open>str.lower\<close> maps a
  single code point to a single code point, and the white space of \<^verbatim>\<open>str.split\<close> and
  \<^verbatim>\<open>str.strip\<close> is the set given by \<open>py_isspace\<close>. The normalisation of strings of any
  code points follows below; on the code points 0 to 255 the two agree.
\<close>

definition py_isspace :: "char \<Rightarrow> bool" where
  "py_isspace c =
     (let n = (of_char c :: nat)
      in (9 \<le> n \<and> n \<le> 13) \<or> (28 \<le> n \<and> n \<le> 32) \<or> n = 133 \<or> n = 160)"

definition py_lower_char :: "char \<Rightarrow> char" where
  "py_lower_char c =
     (let n = (of_char c :: nat)
      in if (65 \<le> n \<and> n \<le> 90) \<or> (192 \<le> n \<and> n \<le> 222 \<and> n \<noteq> 215)
         then char_of (n + 32) else c)"

definition py_lower :: "string \<Rightarrow> string" where
  "py_lower s = map py_lower_char s"

text \<open>
  \<^verbatim>\<open>str.split()\<close> without arguments: the maximal runs of characters that are not
  white space, in order; \<open>w\<close> is the run being collected.
\<close>

fun split_ws :: "string \<Rightarrow> string \<Rightarrow> string list" where
  "split_ws w [] = (if w = [] then [] else [w])"
| "split_ws w (c # cs) =
     (if py_isspace c
      then (if w = [] then split_ws [] cs else w # split_ws [] cs)
      else split_ws (w @ [c]) cs)"

definition py_split :: "string \<Rightarrow> string list" where
  "py_split s = split_ws [] s"

text \<open>\<^verbatim>\<open>str.strip()\<close> without arguments removes leading and trailing white space.\<close>

definition py_strip :: "string \<Rightarrow> string" where
  "py_strip s = rev (dropWhile py_isspace (rev (dropWhile py_isspace s)))"

text \<open>\<^verbatim>\<open>''.join(answer.split()).lower()\<close>\<close>

definition normalize_answer :: "string \<Rightarrow> string" where
  "normalize_answer answer = py_lower (concat (py_split answer))"

subsection \<open>Normalisation on every code point\<close>

text \<open>
  In full, a Python string is a sequence of code points from 0 to \<open>0x10FFFF\<close>. Here a code
  point is a natural number, a string a list of them, and the tables are those of the
  Unicode Character Database 14.0.0, which CPython 3.11 carries. \<^verbatim>\<open>str.split()\<close> cuts at
  the code points of \<open>py_isspace_unicode\<close>.
\<close>

definition py_isspace_unicode :: "nat \<Rightarrow> bool" where
  "py_isspace_unicode c =
     ((9 \<le> c \<and> c \<le> 13) \<or> (28 \<le> c \<and> c \<le> 32) \<or> c = 0x85 \<or> c = 0xA0 \<or> c = 0x1680 \<or>
      (0x2000 \<le> c \<and> c \<le> 0x200A) \<or> c = 0x2028 \<or> c = 0x2029 \<or> c = 0x202F \<or> c = 0x205F \<or>
      c = 0x3000)"

fun split_ws_unicode :: "nat list \<Rightarrow> nat list \<Rightarrow> nat list list" where
  "split_ws_unicode w [] = (if w = [] then [] else [w])"
| "split_ws_unicode w (c # cs) =
     (if py_isspace_unicode c
      then (if w = [] then split_ws_unicode [] cs else w # split_ws_unicode [] cs)
      else split_ws_unicode (w @ [c]) cs)"

definition py_split_unicode :: "nat list \<Rightarrow> nat list list" where
  "py_split_unicode s = split_ws_unicode [] s"

text \<open>
  The lowercase mapping of single code points, in runs \<open>(lo, hi, step, delta)\<close>: each
  of \<open>lo\<close>, \<open>lo + step\<close>, ... up to \<open>hi\<close> maps to itself plus \<open>delta\<close>, and a code
  point in no run maps to itself. The runs are in ascending order, do not overlap, and
  are kept in blocks \<open>(bound, runs)\<close>: a block holds the runs of the code points below
  \<open>bound\<close> that no earlier block holds.
\<close>

definition lower_blocks :: "(nat \<times> (nat \<times> nat \<times> nat \<times> int) list) list" where
  "lower_blocks =
     [(0x18B,
        [(0x41, 0x5A, 1, 32), (0xC0, 0xD6, 1, 32), (0xD8, 0xDE, 1, 32), (0x100, 0x12E, 2, 1),
         (0x132, 0x136, 2, 1), (0x139, 0x147, 2, 1), (0x14A, 0x176, 2, 1),
         (0x178, 0x178, 1, - 121), (0x179, 0x17D, 2, 1), (0x181, 0x181, 1, 210),
         (0x182, 0x184, 2, 1), (0x186, 0x186, 1, 206), (0x187, 0x187, 1, 1),
         (0x189, 0x18A, 1, 205)]),
      (0x1A6,
        [(0x18B, 0x18B, 1, 1), (0x18E, 0x18E, 1, 79), (0x18F, 0x18F, 1, 202),
         (0x190, 0x190, 1, 203), (0x191, 0x191, 1, 1), (0x193, 0x193, 1, 205),
         (0x194, 0x194, 1, 207), (0x196, 0x196, 1, 211), (0x197, 0x197, 1, 209),
         (0x198, 0x198, 1, 1), (0x19C, 0x19C, 1, 211), (0x19D, 0x19D, 1, 213),
         (0x19F, 0x19F, 1, 214), (0x1A0, 0x1A4, 2, 1)]),
      (0x1C8,
        [(0x1A6, 0x1A6, 1, 218), (0x1A7, 0x1A7, 1, 1), (0x1A9, 0x1A9, 1, 218),
         (0x1AC, 0x1AC, 1, 1), (0x1AE, 0x1AE, 1, 218), (0x1AF, 0x1AF, 1, 1),
         (0x1B1, 0x1B2, 1, 217), (0x1B3, 0x1B5, 2, 1), (0x1B7, 0x1B7, 1, 219),
         (0x1B8, 0x1B8, 1, 1), (0x1BC, 0x1BC, 1, 1), (0x1C4, 0x1C4, 1, 2),
         (0x1C5, 0x1C5, 1, 1), (0x1C7, 0x1C7, 1, 2)]),
      (0x23E,
        [(0x1C8, 0x1C8, 1, 1), (0x1CA, 0x1CA, 1, 2), (0x1CB, 0x1DB, 2, 1),
         (0x1DE, 0x1EE, 2, 1), (0x1F1, 0x1F1, 1, 2), (0x1F2, 0x1F4, 2, 1),
         (0x1F6, 0x1F6, 1, - 97), (0x1F7, 0x1F7, 1, - 56), (0x1F8, 0x21E, 2, 1),
         (0x220, 0x220, 1, - 130), (0x222, 0x232, 2, 1), (0x23A, 0x23A, 1, 10795),
         (0x23B, 0x23B, 1, 1), (0x23D, 0x23D, 1, - 163)]),
      (0x3A3,
        [(0x23E, 0x23E, 1, 10792), (0x241, 0x241, 1, 1), (0x243, 0x243, 1, - 195),
         (0x244, 0x244, 1, 69), (0x245, 0x245, 1, 71), (0x246, 0x24E, 2, 1),
         (0x370, 0x372, 2, 1), (0x376, 0x376, 1, 1), (0x37F, 0x37F, 1, 116),
         (0x386, 0x386, 1, 38), (0x388, 0x38A, 1, 37), (0x38C, 0x38C, 1, 64),
         (0x38E, 0x38F, 1, 63), (0x391, 0x3A1, 1, 32)]),
      (0x4D0,
        [(0x3A3, 0x3AB, 1, 32), (0x3CF, 0x3CF, 1, 8), (0x3D8, 0x3EE, 2, 1),
         (0x3F4, 0x3F4, 1, - 60), (0x3F7, 0x3F7, 1, 1), (0x3F9, 0x3F9, 1, - 7),
         (0x3FA, 0x3FA, 1, 1), (0x3FD, 0x3FF, 1, - 130), (0x400, 0x40F, 1, 80),
         (0x410, 0x42F, 1, 32), (0x460, 0x480, 2, 1), (0x48A, 0x4BE, 2, 1),
         (0x4C0, 0x4C0, 1, 15), (0x4C1, 0x4CD, 2, 1)]),
      (0x1F28,
        [(0x4D0, 0x52E, 2, 1), (0x531, 0x556, 1, 48), (0x10A0, 0x10C5, 1, 7264),
         (0x10C7, 0x10C7, 1, 7264), (0x10CD, 0x10CD, 1, 7264), (0x13A0, 0x13EF, 1, 38864),
         (0x13F0, 0x13F5, 1, 8), (0x1C90, 0x1CBA, 1, - 3008), (0x1CBD, 0x1CBF, 1, - 3008),
         (0x1E00, 0x1E94, 2, 1), (0x1E9E, 0x1E9E, 1, - 7615), (0x1EA0, 0x1EFE, 2, 1),
         (0x1F08, 0x1F0F, 1, - 8), (0x1F18, 0x1F1D, 1, - 8)]),
      (0x1FDA,
        [(0x1F28, 0x1F2F, 1, - 8), (0x1F38, 0x1F3F, 1, - 8), (0x1F48, 0x1F4D, 1, - 8),
         (0x1F59, 0x1F5F, 2, - 8), (0x1F68, 0x1F6F, 1, - 8), (0x1F88, 0x1F8F, 1, - 8),
         (0x1F98, 0x1F9F, 1, - 8), (0x1FA8, 0x1FAF, 1, - 8), (0x1FB8, 0x1FB9, 1, - 8),
         (0x1FBA, 0x1FBB, 1, - 74), (0x1FBC, 0x1FBC, 1, - 9), (0x1FC8, 0x1FCB, 1, - 86),
         (0x1FCC, 0x1FCC, 1, - 9), (0x1FD8, 0x1FD9, 1, - 8)]),
      (0x2C00,
        [(0x1FDA, 0x1FDB, 1, - 100), (0x1FE8, 0x1FE9, 1, - 8), (0x1FEA, 0x1FEB, 1, - 112),
         (0x1FEC, 0x1FEC, 1, - 7), (0x1FF8, 0x1FF9, 1, - 128), (0x1FFA, 0x1FFB, 1, - 126),
         (0x1FFC, 0x1FFC, 1, - 9), (0x2126, 0x2126, 1, - 7517), (0x212A, 0x212A, 1, - 8383),
         (0x212B, 0x212B, 1, - 8262), (0x2132, 0x2132, 1, 28), (0x2160, 0x216F, 1, 16),
         (0x2183, 0x2183, 1, 1), (0x24B6, 0x24CF, 1, 26)]),
      (0x2CEB,
        [(0x2C00, 0x2C2F, 1, 48), (0x2C60, 0x2C60, 1, 1), (0x2C62, 0x2C62, 1, - 10743),
         (0x2C63, 0x2C63, 1, - 3814), (0x2C64, 0x2C64, 1, - 10727), (0x2C67, 0x2C6B, 2, 1),
         (0x2C6D, 0x2C6D, 1, - 10780), (0x2C6E, 0x2C6E, 1, - 10749),
         (0x2C6F, 0x2C6F, 1, - 10783), (0x2C70, 0x2C70, 1, - 10782), (0x2C72, 0x2C72, 1, 1),
         (0x2C75, 0x2C75, 1, 1), (0x2C7E, 0x2C7F, 1, - 10815), (0x2C80, 0x2CE2, 2, 1)]),
      (0xA7AB,
        [(0x2CEB, 0x2CED, 2, 1), (0x2CF2, 0x2CF2, 1, 1), (0xA640, 0xA66C, 2, 1),
         (0xA680, 0xA69A, 2, 1), (0xA722, 0xA72E, 2, 1), (0xA732, 0xA76E, 2, 1),
         (0xA779, 0xA77B, 2, 1), (0xA77D, 0xA77D, 1, - 35332), (0xA77E, 0xA786, 2, 1),
         (0xA78B, 0xA78B, 1, 1), (0xA78D, 0xA78D, 1, - 42280), (0xA790, 0xA792, 2, 1),
         (0xA796, 0xA7A8, 2, 1), (0xA7AA, 0xA7AA, 1, - 42308)]),
      (0xA7D6,
        [(0xA7AB, 0xA7AB, 1, - 42319), (0xA7AC, 0xA7AC, 1, - 42315),
         (0xA7AD, 0xA7AD, 1, - 42305), (0xA7AE, 0xA7AE, 1, - 42308),
         (0xA7B0, 0xA7B0, 1, - 42258), (0xA7B1, 0xA7B1, 1, - 42282),
         (0xA7B2, 0xA7B2, 1, - 42261), (0xA7B3, 0xA7B3, 1, 928), (0xA7B4, 0xA7C2, 2, 1),
         (0xA7C4, 0xA7C4, 1, - 48), (0xA7C5, 0xA7C5, 1, - 42307), (0xA7C6, 0xA7C6, 1, - 35384),
         (0xA7C7, 0xA7C9, 2, 1), (0xA7D0, 0xA7D0, 1, 1)]),
      (0x110000,
        [(0xA7D6, 0xA7D8, 2, 1), (0xA7F5, 0xA7F5, 1, 1), (0xFF21, 0xFF3A, 1, 32),
         (0x10400, 0x10427, 1, 40), (0x104B0, 0x104D3, 1, 40), (0x10570, 0x1057A, 1, 39),
         (0x1057C, 0x1058A, 1, 39), (0x1058C, 0x10592, 1, 39), (0x10594, 0x10595, 1, 39),
         (0x10C80, 0x10CB2, 1, 64), (0x118A0, 0x118BF, 1, 32), (0x16E40, 0x16E5F, 1, 32),
         (0x1E900, 0x1E921, 1, 34)])]"

fun range_delta :: "(nat \<times> nat \<times> nat \<times> int) list \<Rightarrow> nat \<Rightarrow> int" where
  "range_delta [] c = 0"
| "range_delta ((lo, hi, step, delta) # rs) c =
     (if hi < c then range_delta rs c
      else if lo \<le> c \<and> (c - lo) mod step = 0 then delta else 0)"

fun block_delta :: "(nat \<times> (nat \<times> nat \<times> nat \<times> int) list) list \<Rightarrow> nat \<Rightarrow> int" where
  "block_delta [] c = 0"
| "block_delta ((bound, rs) # bs) c = (if c < bound then range_delta rs c else block_delta bs c)"

text \<open>
  The full mapping differs from the simple one at U+0130 only, which lowers to the two
  code points U+0069 U+0307.
\<close>

definition lower_delta :: "nat \<Rightarrow> int" where
  "lower_delta c = block_delta lower_blocks c"

definition to_lower_full :: "nat \<Rightarrow> nat list" where
  "to_lower_full c = (if c = 0x130 then [0x69, 0x307] else [nat (int c + lower_delta c)])"

text \<open>The code points with the properties Cased and Case_Ignorable, as intervals.\<close>

definition cased_ranges :: "(nat \<times> nat) list" where
  "cased_ranges =
     [      (0x41, 0x5A), (0x61, 0x7A), (0xAA, 0xAA), (0xB5, 0xB5), (0xBA, 0xBA), (0xC0, 0xD6),
      (0xD8, 0xF6), (0xF8, 0x1BA), (0x1BC, 0x1BF), (0x1C4, 0x293), (0x295, 0x2B8),
      (0x2C0, 0x2C1), (0x2E0, 0x2E4), (0x345, 0x345), (0x370, 0x373), (0x376, 0x377),
      (0x37A, 0x37D), (0x37F, 0x37F), (0x386, 0x386), (0x388, 0x38A), (0x38C, 0x38C),
      (0x38E, 0x3A1), (0x3A3, 0x3F5), (0x3F7, 0x481), (0x48A, 0x52F), (0x531, 0x556),
      (0x560, 0x588), (0x10A0, 0x10C5), (0x10C7, 0x10C7), (0x10CD, 0x10CD), (0x10D0, 0x10FA),
      (0x10FD, 0x10FF), (0x13A0, 0x13F5), (0x13F8, 0x13FD), (0x1C80, 0x1C88), (0x1C90, 0x1CBA),
      (0x1CBD, 0x1CBF), (0x1D00, 0x1DBF), (0x1E00, 0x1F15), (0x1F18, 0x1F1D), (0x1F20, 0x1F45),
      (0x1F48, 0x1F4D), (0x1F50, 0x1F57), (0x1F59, 0x1F59), (0x1F5B, 0x1F5B), (0x1F5D, 0x1F5D),
      (0x1F5F, 0x1F7D), (0x1F80, 0x1FB4), (0x1FB6, 0x1FBC), (0x1FBE, 0x1FBE), (0x1FC2, 0x1FC4),
      (0x1FC6, 0x1FCC), (0x1FD0, 0x1FD3), (0x1FD6, 0x1FDB), (0x1FE0, 0x1FEC), (0x1FF2, 0x1FF4),
      (0x1FF6, 0x1FFC), (0x2071, 0x2071), (0x207F, 0x207F), (0x2090, 0x209C), (0x2102, 0x2102),
      (0x2107, 0x2107), (0x210A, 0x2113), (0x2115, 0x2115), (0x2119, 0x211D), (0x2124, 0x2124),
      (0x2126, 0x2126), (0x2128, 0x2128), (0x212A, 0x212D), (0x212F, 0x2134), (0x2139, 0x2139),
      (0x213C, 0x213F), (0x2145, 0x2149), (0x214E, 0x214E), (0x2160, 0x217F), (0x2183, 0x2184),
      (0x24B6, 0x24E9), (0x2C00, 0x2CE4), (0x2CEB, 0x2CEE), (0x2CF2, 0x2CF3), (0x2D00, 0x2D25),
      (0x2D27, 0x2D27), (0x2D2D, 0x2D2D), (0xA640, 0xA66D), (0xA680, 0xA69D), (0xA722, 0xA787),
      (0xA78B, 0xA78E), (0xA790, 0xA7CA), (0xA7D0, 0xA7D1), (0xA7D3, 0xA7D3), (0xA7D5, 0xA7D9),
      (0xA7F5, 0xA7F6), (0xA7F8, 0xA7FA), (0xAB30, 0xAB5A), (0xAB5C, 0xAB68), (0xAB70, 0xABBF),
      (0xFB00, 0xFB06), (0xFB13, 0xFB17), (0xFF21, 0xFF3A), (0xFF41, 0xFF5A),
      (0x10400, 0x1044F), (0x104B0, 0x104D3), (0x104D8, 0x104FB), (0x10570, 0x1057A),
      (0x1057C, 0x1058A), (0x1058C, 0x10592), (0x10594, 0x10595), (0x10597, 0x105A1),
      (0x105A3, 0x105B1), (0x105B3, 0x105B9), (0x105BB, 0x105BC), (0x10780, 0x10780),
      (0x10783, 0x10785), (0x10787, 0x107B0), (0x107B2, 0x107BA), (0x10C80, 0x10CB2),
      (0x10CC0, 0x10CF2), (0x118A0, 0x118DF), (0x16E40, 0x16E7F), (0x1D400, 0x1D454),
      (0x1D456, 0x1D49C), (0x1D49E, 0x1D49F), (0x1D4A2, 0x1D4A2), (0x1D4A5, 0x1D4A6),
      (0x1D4A9, 0x1D4AC), (0x1D4AE, 0x1D4B9), (0x1D4BB, 0x1D4BB), (0x1D4BD, 0x1D4C3),
      (0x1D4C5, 0x1D505), (0x1D507, 0x1D50A), (0x1D50D, 0x1D514), (0x1D516, 0x1D51C),
      (0x1D51E, 0x1D539), (0x1D53B, 0x1D53E), (0x1D540, 0x1D544), (0x1D546, 0x1D546),
      (0x1D54A, 0x1D550), (0x1D552, 0x1D6A5), (0x1D6A8, 0x1D6C0), (0x1D6C2, 0x1D6DA),
      (0x1D6DC, 0x1D6FA), (0x1D6FC, 0x1D714), (0x1D716, 0x1D734), (0x1D736, 0x1D74E),
      (0x1D750, 0x1D76E), (0x1D770, 0x1D788), (0x1D78A, 0x1D7A8), (0x1D7AA, 0x1D7C2),
      (0x1D7C4, 0x1D7CB), (0x1DF00, 0x1DF09), (0x1DF0B, 0x1DF1E), (0x1E900, 0x1E943),
      (0x1F130, 0x1F149), (0x1F150, 0x1F169), (0x1F170, 0x1F189)]"

definition case_ignorable_ranges :: "(nat \<times> nat) list" where
  "case_ignorable_ranges =
     [      (0x27, 0x27), (0x2E, 0x2E), (0x3A, 0x3A), (0x5E, 0x5E), (0x60, 0x60), (0xA8, 0xA8),
      (0xAD, 0xAD), (0xAF, 0xAF), (0xB4, 0xB4), (0xB7, 0xB8), (0x2B0, 0x36F), (0x374, 0x375),
      (0x37A, 0x37A), (0x384, 0x385), (0x387, 0x387), (0x483, 0x489), (0x559, 0x559),
      (0x55F, 0x55F), (0x591, 0x5BD), (0x5BF, 0x5BF), (0x5C1, 0x5C2), (0x5C4, 0x5C5),
      (0x5C7, 0x5C7), (0x5F4, 0x5F4), (0x600, 0x605), (0x610, 0x61A), (0x61C, 0x61C),
      (0x640, 0x640), (0x64B, 0x65F), (0x670, 0x670), (0x6D6, 0x6DD), (0x6DF, 0x6E8),
      (0x6EA, 0x6ED), (0x70F, 0x70F), (0x711, 0x711), (0x730, 0x74A), (0x7A6, 0x7B0),
      (0x7EB, 0x7F5), (0x7FA, 0x7FA), (0x7FD, 0x7FD), (0x816, 0x82D), (0x859, 0x85B),
      (0x888, 0x888), (0x890, 0x891), (0x898, 0x89F), (0x8C9, 0x902), (0x93A, 0x93A),
      (0x93C, 0x93C), (0x941, 0x948), (0x94D, 0x94D), (0x951, 0x957), (0x962, 0x963),
      (0x971, 0x971), (0x981, 0x981), (0x9BC, 0x9BC), (0x9C1, 0x9C4), (0x9CD, 0x9CD),
      (0x9E2, 0x9E3), (0x9FE, 0x9FE), (0xA01, 0xA02), (0xA3C, 0xA3C), (0xA41, 0xA42),
      (0xA47, 0xA48), (0xA4B, 0xA4D), (0xA51, 0xA51), (0xA70, 0xA71), (0xA75, 0xA75),
      (0xA81, 0xA82), (0xABC, 0xABC), (0xAC1, 0xAC5), (0xAC7, 0xAC8), (0xACD, 0xACD),
      (0xAE2, 0xAE3), (0xAFA, 0xAFF), (0xB01, 0xB01), (0xB3C, 0xB3C), (0xB3F, 0xB3F),
      (0xB41, 0xB44), (0xB4D, 0xB4D), (0xB55, 0xB56), (0xB62, 0xB63), (0xB82, 0xB82),
      (0xBC0, 0xBC0), (0xBCD, 0xBCD), (0xC00, 0xC00), (0xC04, 0xC04), (0xC3C, 0xC3C),
      (0xC3E, 0xC40), (0xC46, 0xC48), (0xC4A, 0xC4D), (0xC55, 0xC56), (0xC62, 0xC63),
      (0xC81, 0xC81), (0xCBC, 0xCBC), (0xCBF, 0xCBF), (0xCC6, 0xCC6), (0xCCC, 0xCCD),
      (0xCE2, 0xCE3), (0xD00, 0xD01), (0xD3B, 0xD3C), (0xD41, 0xD44), (0xD4D, 0xD4D),
      (0xD62, 0xD63), (0xD81, 0xD81), (0xDCA, 0xDCA), (0xDD2, 0xDD4), (0xDD6, 0xDD6),
      (0xE31, 0xE31), (0xE34, 0xE3A), (0xE46, 0xE4E), (0xEB1, 0xEB1), (0xEB4, 0xEBC),
      (0xEC6, 0xEC6), (0xEC8, 0xECD), (0xF18, 0xF19), (0xF35, 0xF35), (0xF37, 0xF37),
      (0xF39, 0xF39), (0xF71, 0xF7E), (0xF80, 0xF84), (0xF86, 0xF87), (0xF8D, 0xF97),
      (0xF99, 0xFBC), (0xFC6, 0xFC6), (0x102D, 0x1030), (0x1032, 0x1037), (0x1039, 0x103A),
      (0x103D, 0x103E), (0x1058, 0x1059), (0x105E, 0x1060), (0x1071, 0x1074), (0x1082, 0x1082),
      (0x1085, 0x1086), (0x108D, 0x108D), (0x109D, 0x109D), (0x10FC, 0x10FC), (0x135D, 0x135F),
      (0x1712, 0x1714), (0x1732, 0x1733), (0x1752, 0x1753), (0x1772, 0x1773), (0x17B4, 0x17B5),
      (0x17B7, 0x17BD), (0x17C6, 0x17C6), (0x17C9, 0x17D3), (0x17D7, 0x17D7), (0x17DD, 0x17DD),
      (0x180B, 0x180F), (0x1843, 0x1843), (0x1885, 0x1886), (0x18A9, 0x18A9), (0x1920, 0x1922),
      (0x1927, 0x1928), (0x1932, 0x1932), (0x1939, 0x193B), (0x1A17, 0x1A18), (0x1A1B, 0x1A1B),
      (0x1A56, 0x1A56), (0x1A58, 0x1A5E), (0x1A60, 0x1A60), (0x1A62, 0x1A62), (0x1A65, 0x1A6C),
      (0x1A73, 0x1A7C), (0x1A7F, 0x1A7F), (0x1AA7, 0x1AA7), (0x1AB0, 0x1ACE), (0x1B00, 0x1B03),
      (0x1B34, 0x1B34), (0x1B36, 0x1B3A), (0x1B3C, 0x1B3C), (0x1B42, 0x1B42), (0x1B6B, 0x1B73),
      (0x1B80, 0x1B81), (0x1BA2, 0x1BA5), (0x1BA8, 0x1BA9), (0x1BAB, 0x1BAD), (0x1BE6, 0x1BE6),
      (0x1BE8, 0x1BE9), (0x1BED, 0x1BED), (0x1BEF, 0x1BF1), (0x1C2C, 0x1C33), (0x1C36, 0x1C37),
      (0x1C78, 0x1C7D), (0x1CD0, 0x1CD2), (0x1CD4, 0x1CE0), (0x1CE2, 0x1CE8), (0x1CED, 0x1CED),
      (0x1CF4, 0x1CF4), (0x1CF8, 0x1CF9), (0x1D2C, 0x1D6A), (0x1D78, 0x1D78), (0x1D9B, 0x1DFF),
      (0x1FBD, 0x1FBD), (0x1FBF, 0x1FC1), (0x1FCD, 0x1FCF), (0x1FDD, 0x1FDF), (0x1FED, 0x1FEF),
      (0x1FFD, 0x1FFE), (0x200B, 0x200F), (0x2018, 0x2019), (0x2024, 0x2024), (0x2027, 0x2027),
      (0x202A, 0x202E), (0x2060, 0x2064), (0x2066, 0x206F), (0x2071, 0x2071), (0x207F, 0x207F),
      (0x2090, 0x209C), (0x20D0, 0x20F0), (0x2C7C, 0x2C7D), (0x2CEF, 0x2CF1), (0x2D6F, 0x2D6F),
      (0x2D7F, 0x2D7F), (0x2DE0, 0x2DFF), (0x2E2F, 0x2E2F), (0x3005, 0x3005), (0x302A, 0x302D),
      (0x3031, 0x3035), (0x303B, 0x303B), (0x3099, 0x309E), (0x30FC, 0x30FE), (0xA015, 0xA015),
      (0xA4F8, 0xA4FD), (0xA60C, 0xA60C), (0xA66F, 0xA672), (0xA674, 0xA67D), (0xA67F, 0xA67F),
      (0xA69C, 0xA69F), (0xA6F0, 0xA6F1), (0xA700, 0xA721), (0xA770, 0xA770), (0xA788, 0xA78A),
      (0xA7F2, 0xA7F4), (0xA7F8, 0xA7F9), (0xA802, 0xA802), (0xA806, 0xA806), (0xA80B, 0xA80B),
      (0xA825, 0xA826), (0xA82C, 0xA82C), (0xA8C4, 0xA8C5), (0xA8E0, 0xA8F1), (0xA8FF, 0xA8FF),
      (0xA926, 0xA92D), (0xA947, 0xA951), (0xA980, 0xA982), (0xA9B3, 0xA9B3), (0xA9B6, 0xA9B9),
      (0xA9BC, 0xA9BD), (0xA9CF, 0xA9CF), (0xA9E5, 0xA9E6), (0xAA29, 0xAA2E), (0xAA31, 0xAA32),
      (0xAA35, 0xAA36), (0xAA43, 0xAA43), (0xAA4C, 0xAA4C), (0xAA70, 0xAA70), (0xAA7C, 0xAA7C),
      (0xAAB0, 0xAAB0), (0xAAB2, 0xAAB4), (0xAAB7, 0xAAB8), (0xAABE, 0xAABF), (0xAAC1, 0xAAC1),
      (0xAADD, 0xAADD), (0xAAEC, 0xAAED), (0xAAF3, 0xAAF4), (0xAAF6, 0xAAF6), (0xAB5B, 0xAB5F),
      (0xAB69, 0xAB6B), (0xABE5, 0xABE5), (0xABE8, 0xABE8), (0xABED, 0xABED), (0xFB1E, 0xFB1E),
      (0xFBB2, 0xFBC2), (0xFE00, 0xFE0F), (0xFE13, 0xFE13), (0xFE20, 0xFE2F), (0xFE52, 0xFE52),
      (0xFE55, 0xFE55), (0xFEFF, 0xFEFF), (0xFF07, 0xFF07), (0xFF0E, 0xFF0E), (0xFF1A, 0xFF1A),
      (0xFF3E, 0xFF3E), (0xFF40, 0xFF40), (0xFF70, 0xFF70), (0xFF9E, 0xFF9F), (0xFFE3, 0xFFE3),
      (0xFFF9, 0xFFFB), (0x101FD, 0x101FD), (0x102E0, 0x102E0), (0x10376, 0x1037A),
      (0x10780, 0x10785), (0x10787, 0x107B0), (0x107B2, 0x107BA), (0x10A01, 0x10A03),
      (0x10A05, 0x10A06), (0x10A0C, 0x10A0F), (0x10A38, 0x10A3A), (0x10A3F, 0x10A3F),
      (0x10AE5, 0x10AE6), (0x10D24, 0x10D27), (0x10EAB, 0x10EAC), (0x10F46, 0x10F50),
      (0x10F82, 0x10F85), (0x11001, 0x11001), (0x11038, 0x11046), (0x11070, 0x11070),
      (0x11073, 0x11074), (0x1107F, 0x11081), (0x110B3, 0x110B6), (0x110B9, 0x110BA),
      (0x110BD, 0x110BD), (0x110C2, 0x110C2), (0x110CD, 0x110CD), (0x11100, 0x11102),
      (0x11127, 0x1112B), (0x1112D, 0x11134), (0x11173, 0x11173), (0x11180, 0x11181),
      (0x111B6, 0x111BE), (0x111C9, 0x111CC), (0x111CF, 0x111CF), (0x1122F, 0x11231),
      (0x11234, 0x11234), (0x11236, 0x11237), (0x1123E, 0x1123E), (0x112DF, 0x112DF),
      (0x112E3, 0x112EA), (0x11300, 0x11301), (0x1133B, 0x1133C), (0x11340, 0x11340),
      (0x11366, 0x1136C), (0x11370, 0x11374), (0x11438, 0x1143F), (0x11442, 0x11444),
      (0x11446, 0x11446), (0x1145E, 0x1145E), (0x114B3, 0x114B8), (0x114BA, 0x114BA),
      (0x114BF, 0x114C0), (0x114C2, 0x114C3), (0x115B2, 0x115B5), (0x115BC, 0x115BD),
      (0x115BF, 0x115C0), (0x115DC, 0x115DD), (0x11633, 0x1163A), (0x1163D, 0x1163D),
      (0x1163F, 0x11640), (0x116AB, 0x116AB), (0x116AD, 0x116AD), (0x116B0, 0x116B5),
      (0x116B7, 0x116B7), (0x1171D, 0x1171F), (0x11722, 0x11725), (0x11727, 0x1172B),
      (0x1182F, 0x11837), (0x11839, 0x1183A), (0x1193B, 0x1193C), (0x1193E, 0x1193E),
      (0x11943, 0x11943), (0x119D4, 0x119D7), (0x119DA, 0x119DB), (0x119E0, 0x119E0),
      (0x11A01, 0x11A0A), (0x11A33, 0x11A38), (0x11A3B, 0x11A3E), (0x11A47, 0x11A47),
      (0x11A51, 0x11A56), (0x11A59, 0x11A5B), (0x11A8A, 0x11A96), (0x11A98, 0x11A99),
      (0x11C30, 0x11C36), (0x11C38, 0x11C3D), (0x11C3F, 0x11C3F), (0x11C92, 0x11CA7),
      (0x11CAA, 0x11CB0), (0x11CB2, 0x11CB3), (0x11CB5, 0x11CB6), (0x11D31, 0x11D36),
      (0x11D3A, 0x11D3A), (0x11D3C, 0x11D3D), (0x11D3F, 0x11D45), (0x11D47, 0x11D47),
      (0x11D90, 0x11D91), (0x11D95, 0x11D95), (0x11D97, 0x11D97), (0x11EF3, 0x11EF4),
      (0x13430, 0x13438), (0x16AF0, 0x16AF4), (0x16B30, 0x16B36), (0x16B40, 0x16B43),
      (0x16F4F, 0x16F4F), (0x16F8F, 0x16F9F), (0x16FE0, 0x16FE1), (0x16FE3, 0x16FE4),
      (0x1AFF0, 0x1AFF3), (0x1AFF5, 0x1AFFB), (0x1AFFD, 0x1AFFE), (0x1BC9D, 0x1BC9E),
      (0x1BCA0, 0x1BCA3), (0x1CF00, 0x1CF2D), (0x1CF30, 0x1CF46), (0x1D167, 0x1D169),
      (0x1D173, 0x1D182), (0x1D185, 0x1D18B), (0x1D1AA, 0x1D1AD), (0x1D242, 0x1D244),
      (0x1DA00, 0x1DA36), (0x1DA3B, 0x1DA6C), (0x1DA75, 0x1DA75), (0x1DA84, 0x1DA84),
      (0x1DA9B, 0x1DA9F), (0x1DAA1, 0x1DAAF), (0x1E000, 0x1E006), (0x1E008, 0x1E018),
      (0x1E01B, 0x1E021), (0x1E023, 0x1E024), (0x1E026, 0x1E02A), (0x1E130, 0x1E13D),
      (0x1E2AE, 0x1E2AE), (0x1E2EC, 0x1E2EF), (0x1E8D0, 0x1E8D6), (0x1E944, 0x1E94B),
      (0x1F3FB, 0x1F3FF), (0xE0001, 0xE0001), (0xE0020, 0xE007F), (0xE0100, 0xE01EF)]"

fun in_ranges :: "(nat \<times> nat) list \<Rightarrow> nat \<Rightarrow> bool" where
  "in_ranges [] c = False"
| "in_ranges ((lo, hi) # rs) c =
     (if hi < c then in_ranges rs c else lo \<le> c)"

definition is_cased :: "nat \<Rightarrow> bool" where
  "is_cased c = in_ranges cased_ranges c"

definition is_case_ignorable :: "nat \<Rightarrow> bool" where
  "is_case_ignorable c = in_ranges case_ignorable_ranges c"

text \<open>
  \<^verbatim>\<open>str.lower()\<close> maps every code point by \<open>to_lower_full\<close>, except the capital sigma
  U+03A3: it becomes the final sigma U+03C2 when, in the string being lowered, a cased
  code point precedes it and none follows it, code points that are case-ignorable being
  skipped on both sides, and the small sigma U+03C3 otherwise. \<open>before\<close> is the part of
  the string that precedes the code point, nearest first.
\<close>

definition final_sigma :: "nat list \<Rightarrow> nat list \<Rightarrow> bool" where
  "final_sigma before after =
     ((case dropWhile is_case_ignorable before of [] \<Rightarrow> False | c # _ \<Rightarrow> is_cased c) \<and>
      (case dropWhile is_case_ignorable after of [] \<Rightarrow> True | c # _ \<Rightarrow> \<not> is_cased c))"

fun lower_from :: "nat list \<Rightarrow> nat list \<Rightarrow> nat list" where
  "lower_from before [] = []"
| "lower_from before (c # cs) =
     (if c = 0x3A3 then [if final_sigma before cs then 0x3C2 else 0x3C3] else to_lower_full c)
     @ lower_from (c # before) cs"

definition py_lower_unicode :: "nat list \<Rightarrow> nat list" where
  "py_lower_unicode s = lower_from [] s"

text \<open>\<^verbatim>\<open>''.join(answer.split()).lower()\<close> on a string of any code points.\<close>

definition normalize_answer_unicode :: "nat list \<Rightarrow> nat list" where
  "normalize_answer_unicode answer = py_lower_unicode (concat (py_split_unicode answer))"

text \<open>
  The code points that the runs of a table produce, and what makes a code point stay as
  it is under \<open>normalize_answer_unicode\<close>.
\<close>

fun run_images :: "nat \<Rightarrow> nat \<Rightarrow> nat \<Rightarrow> int \<Rightarrow> nat list" where
  "run_images 0 lo step delta = []"
| "run_images (Suc n) lo step delta = nat (int lo + delta) # run_images n (lo + step) step delta"

fun range_images :: "(nat \<times> nat \<times> nat \<times> int) list \<Rightarrow> nat list" where
  "range_images [] = []"
| "range_images ((lo, hi, step, delta) # rs) =
     run_images (Suc ((hi - lo) div step)) lo step delta @ range_images rs"

fun block_images :: "(nat \<times> (nat \<times> nat \<times> nat \<times> int) list) list \<Rightarrow> nat list" where
  "block_images [] = []"
| "block_images ((bound, rs) # bs) = range_images rs @ block_images bs"

definition lowered :: "nat \<Rightarrow> bool" where
  "lowered c = (lower_delta c = 0 \<and> c \<noteq> 0x130 \<and> \<not> py_isspace_unicode c)"

section \<open>Percentage (\<^verbatim>\<open>calculate_percentage\<close>, lines 185-189)\<close>

text \<open>
  \<^verbatim>\<open>round((correct_answers / total_questions) * 100)\<close> divides two integers into a
  double, multiplies the double by 100 and rounds it to an integer. Each step is modelled
  exactly: a finite double is \<open>Finite m e\<close>, standing for \<open>m * 2 ^ e\<close>, and every
  operation rounds its exact result to the nearest double, ties to the even mantissa.
\<close>

text \<open>\<^verbatim>\<open>int.bit_length\<close>\<close>

fun bit_length :: "nat \<Rightarrow> nat" where
  "bit_length n = (if n = 0 then 0 else Suc (bit_length (n div 2)))"

declare bit_length.simps [simp del]

text \<open>The integer nearest to \<open>n / d\<close> for \<open>0 < d\<close>, ties to the even integer.\<close>

definition round_half_even :: "int \<Rightarrow> int \<Rightarrow> int" where
  "round_half_even n d =
     (let q = n div d; r = n mod d
      in if 2 * r < d then q else if d < 2 * r then q + 1 else if even q then q else q + 1)"

text \<open>The integer \<open>k\<close> with \<open>2 ^ k \<le> n / d < 2 ^ (k + 1)\<close>, for \<open>0 < n\<close> and \<open>0 < d\<close>.\<close>

definition floor_log2 :: "int \<Rightarrow> int \<Rightarrow> int" where
  "floor_log2 n d =
     (let k = int (bit_length (nat n)) - int (bit_length (nat d))
      in if (if 0 \<le> k then d * 2 ^ nat k \<le> n else d \<le> n * 2 ^ nat (- k)) then k else k - 1)"

datatype pyfloat = Finite int int | Infinite

text \<open>
  The double nearest to \<open>n / d\<close> for \<open>0 < d\<close>: a mantissa of 53 bits, an exponent of at
  least -1074 (below that the mantissa is shorter), and infinity from \<open>2 ^ 1024\<close> on.
\<close>

definition to_double :: "int \<Rightarrow> int \<Rightarrow> pyfloat" where
  "to_double n d =
     (if n = 0 then Finite 0 0
      else let e = max (floor_log2 \<bar>n\<bar> d - 52) (- 1074);
               m = (if 0 \<le> e then round_half_even n (d * 2 ^ nat e)
                    else round_half_even (n * 2 ^ nat (- e)) d)
           in if 0 \<le> e then (if 2 ^ 1024 \<le> \<bar>m\<bar> * 2 ^ nat e then Infinite else Finite m e)
              else Finite m e)"

text \<open>
  \<^verbatim>\<open>a / b\<close> on integers: the quotient correctly rounded, \<^verbatim>\<open>ZeroDivisionError\<close> for a
  zero divisor, \<^verbatim>\<open>OverflowError\<close> when the quotient is too large for a double.
\<close>

definition int_truediv :: "int \<Rightarrow> int \<Rightarrow> error + pyfloat" where
  "int_truediv a b =
     (if b = 0 then Inl ZeroDivisionError
      else case to_double (if b < 0 then - a else a) \<bar>b\<bar> of
             Infinite \<Rightarrow> Inl OverflowError
           | x \<Rightarrow> Inr x)"

text \<open>\<^verbatim>\<open>x * k\<close> for a double \<open>x\<close> and a positive integer \<open>k\<close> that is itself a double.\<close>

fun float_mul_int :: "pyfloat \<Rightarrow> int \<Rightarrow> pyfloat" where
  "float_mul_int (Finite m e) k =
     (if 0 \<le> e then to_double (m * k * 2 ^ nat e) 1 else to_double (m * k) (2 ^ nat (- e)))"
| "float_mul_int Infinite k = Infinite"

text \<open>\<^verbatim>\<open>round(x)\<close> on a double: the nearest integer, ties to the even one.\<close>

fun py_round :: "pyfloat \<Rightarrow> error + int" where
  "py_round (Finite m e) =
     Inr (if 0 \<le> e then m * 2 ^ nat e else round_half_even m (2 ^ nat (- e)))"
| "py_round Infinite = Inl OverflowError"

definition calculate_percentage :: "int \<Rightarrow> int \<Rightarrow> error + int" where
  "calculate_percentage correct_answers total_questions =
     (if total_questions = 0 then Inr 0
      else case int_truediv correct_answers total_questions of
             Inl err \<Rightarrow> Inl err
           | Inr q \<Rightarrow> py_round (float_mul_int q 100))"

section \<open>JSON documents and Python values\<close>

text \<open>
  A JSON document as a tree; the members of an object are in the order of the text, and a
  name may occur twice. Numbers are integers: documents with fractions are not covered.
\<close>

datatype json =
  JNull | JBool bool | JInt int | JStr string | JArr "json list" | JObj "(string \<times> json) list"

text \<open>
  The values that the program holds: what \<^verbatim>\<open>json.load\<close> returns, and dicts that also have
  integer keys (the user ids of Telegram). A dict is the list of its items in insertion
  order.
\<close>

datatype key = KInt int | KStr string

datatype pyval =
  PNone | PBool bool | PInt int | PStr string | PList "pyval list" | PDict "(key \<times> pyval) list"

text \<open>
  \<^verbatim>\<open>json.load\<close> builds a dict from the members of an object one by one: a repeated name
  keeps its first position and takes the last value.
\<close>

definition dict_of_pairs :: "(key \<times> pyval) list \<Rightarrow> (key \<times> pyval) list" where
  "dict_of_pairs ps = foldl (\<lambda>d (k, v). AList.update k v d) [] ps"

fun json_load :: "json \<Rightarrow> pyval" where
  "json_load JNull = PNone"
| "json_load (JBool b) = PBool b"
| "json_load (JInt n) = PInt n"
| "json_load (JStr s) = PStr s"
| "json_load (JArr xs) = PList (map json_load xs)"
| "json_load (JObj ms) = PDict (dict_of_pairs (map (\<lambda>(k, v). (KStr k, json_load v)) ms))"

text \<open>\<^verbatim>\<open>str(n)\<close> for an integer: \<^verbatim>\<open>json.dump\<close> writes an integer key as this string.\<close>

function digits :: "nat \<Rightarrow> string" where
  "digits n = (if n < 10 then [char_of (48 + n)] else digits (n div 10) @ [char_of (48 + n mod 10)])"
  by pat_completeness auto
termination
  by (relation "measure id") auto

declare digits.simps [simp del]

definition py_str_int :: "int \<Rightarrow> string" where
  "py_str_int n = (if n < 0 then CHR ''-'' # digits (nat (- n)) else digits (nat n))"

fun key_str :: "key \<Rightarrow> string" where
  "key_str (KStr s) = s"
| "key_str (KInt n) = py_str_int n"

fun json_dump :: "pyval \<Rightarrow> json" where
  "json_dump PNone = JNull"
| "json_dump (PBool b) = JBool b"
| "json_dump (PInt n) = JInt n"
| "json_dump (PStr s) = JStr s"
| "json_dump (PList xs) = JArr (map json_dump xs)"
| "json_dump (PDict d) = JObj (map (\<lambda>(k, v). (key_str k, json_dump v)) d)"

subsection \<open>Operations of Python on dynamically typed values\<close>

text \<open>\<^verbatim>\<open>x.get(k, default)\<close> with a string key: only a dict has the method.\<close>

fun py_get :: "pyval \<Rightarrow> string \<Rightarrow> pyval \<Rightarrow> error + pyval" where
  "py_get (PDict d) k dflt = Inr (case map_of d (KStr k) of Some v \<Rightarrow> v | None \<Rightarrow> dflt)"
| "py_get _ k dflt = Inl AttributeError"

text \<open>\<^verbatim>\<open>x.items()\<close>\<close>

fun py_items :: "pyval \<Rightarrow> error + (key \<times> pyval) list" where
  "py_items (PDict d) = Inr d"
| "py_items _ = Inl AttributeError"

text \<open>\<^verbatim>\<open>n == x\<close> for an integer \<open>n\<close>: \<^verbatim>\<open>True\<close> equals 1 and \<^verbatim>\<open>False\<close> equals 0.\<close>

fun py_eq_int :: "int \<Rightarrow> pyval \<Rightarrow> bool" where
  "py_eq_int n (PInt m) = (n = m)"
| "py_eq_int n (PBool b) = (n = (if b then 1 else 0))"
| "py_eq_int n _ = False"

text \<open>\<^verbatim>\<open>n in x\<close> for an integer \<open>n\<close>\<close>

fun py_contains :: "pyval \<Rightarrow> int \<Rightarrow> error + bool" where
  "py_contains (PDict d) n = Inr (map_of d (KInt n) \<noteq> None)"
| "py_contains (PList xs) n = Inr (list_ex (py_eq_int n) xs)"
| "py_contains _ n = Inl TypeError"

text \<open>The position that a sequence index denotes; a negative index counts from the end.\<close>

definition py_index :: "'a list \<Rightarrow> int \<Rightarrow> error + nat" where
  "py_index xs i =
     (let n = int (length xs); j = (if i < 0 then i + n else i)
      in if 0 \<le> j \<and> j < n then Inr (nat j) else Inl IndexError)"

text \<open>\<^verbatim>\<open>x[i]\<close> for an integer \<open>i\<close>, \<^verbatim>\<open>x[k]\<close> for a string \<open>k\<close>, and \<^verbatim>\<open>x[i] = v\<close>\<close>

fun py_getitem_int :: "pyval \<Rightarrow> int \<Rightarrow> error + pyval" where
  "py_getitem_int (PDict d) i = (case map_of d (KInt i) of Some v \<Rightarrow> Inr v | None \<Rightarrow> Inl KeyError)"
| "py_getitem_int (PList xs) i = bind_err (py_index xs i) (\<lambda>j. Inr (xs ! j))"
| "py_getitem_int (PStr s) i = bind_err (py_index s i) (\<lambda>j. Inr (PStr [s ! j]))"
| "py_getitem_int _ i = Inl TypeError"

fun py_getitem_str :: "pyval \<Rightarrow> string \<Rightarrow> error + pyval" where
  "py_getitem_str (PDict d) k = (case map_of d (KStr k) of Some v \<Rightarrow> Inr v | None \<Rightarrow> Inl KeyError)"
| "py_getitem_str _ k = Inl TypeError"

fun py_setitem_int :: "pyval \<Rightarrow> int \<Rightarrow> pyval \<Rightarrow> error + pyval" where
  "py_setitem_int (PDict d) i v = Inr (PDict (AList.update (KInt i) v d))"
| "py_setitem_int (PList xs) i v = bind_err (py_index xs i) (\<lambda>j. Inr (PList (xs[j := v])))"
| "py_setitem_int _ i v = Inl TypeError"

text \<open>\<^verbatim>\<open>len(x)\<close>\<close>

fun py_len :: "pyval \<Rightarrow> error + nat" where
  "py_len (PList xs) = Inr (length xs)"
| "py_len (PStr s) = Inr (length s)"
| "py_len (PDict d) = Inr (length d)"
| "py_len _ = Inl TypeError"

text \<open>
  \<^verbatim>\<open>sum(x)\<close>: starts from the integer 0 and adds the elements that iterating \<open>x\<close>
  yields, in order: the elements of a list, the keys of a dict, the characters of a string.
\<close>

fun py_add_int :: "int \<Rightarrow> pyval \<Rightarrow> error + int" where
  "py_add_int acc (PInt n) = Inr (acc + n)"
| "py_add_int acc (PBool b) = Inr (acc + (if b then 1 else 0))"
| "py_add_int acc _ = Inl TypeError"

fun sum_loop :: "int \<Rightarrow> pyval list \<Rightarrow> error + int" where
  "sum_loop acc [] = Inr acc"
| "sum_loop acc (x # xs) = bind_err (py_add_int acc x) (\<lambda>acc'. sum_loop acc' xs)"

fun key_val :: "key \<Rightarrow> pyval" where
  "key_val (KInt n) = PInt n"
| "key_val (KStr s) = PStr s"

fun py_sum :: "pyval \<Rightarrow> error + int" where
  "py_sum (PList xs) = sum_loop 0 xs"
| "py_sum (PDict d) = sum_loop 0 (map (\<lambda>item. key_val (fst item)) d)"
| "py_sum (PStr s) = sum_loop 0 (map (\<lambda>c. PStr [c]) s)"
| "py_sum _ = Inl TypeError"

text \<open>
  \<^verbatim>\<open>sorted(xs, key=f, reverse=True)\<close> on items already paired with their keys: the list is
  reversed, sorted by a stable ascending sort, and reversed again.
\<close>

definition sorted_reverse :: "(int \<times> 'a) list \<Rightarrow> (int \<times> 'a) list" where
  "sorted_reverse xs = rev (sort_key fst (rev xs))"

section \<open>The bot's state\<close>

text \<open>
  A file is absent, or holds bytes that are not UTF-8 text, or holds text that is not a
  JSON document, or holds a JSON document.
\<close>

datatype disk_file = Missing | NotText | Undecodable | Document json

text \<open>The values of \<^verbatim>\<open>user_states\<close>: \<^verbatim>\<open>'test_sent'\<close> and \<^verbatim>\<open>'answers_submitted'\<close>.\<close>

datatype session = test_sent | answers_submitted

text \<open>
  One constructor for each logging call of the functions below. Line 53 logs the exception
  that it has caught: the \<^verbatim>\<open>ValueError\<close> of line 44 (\<open>LogAnswerFileInvalid\<close>) or the
  \<^verbatim>\<open>UnicodeDecodeError\<close> of reading the file (\<open>LogAnswerFileNotText\<close>).
\<close>

datatype log_entry =
    LogAnswerFileNotFound
  | LogAnswerFileDecodeError
  | LogAnswerFileInvalid
  | LogAnswerFileNotText
  | LogStatsDecodeError
  | LogStatsWriteError
  | LogExcelWriteError
  | LogGetTestCalled
  | LogImageNotFound nat
  | LogSubmitCalled
  | LogWrongCount int
  | LogRepeatAttempt int
  | LogShowStatsCalled
  | LogHandlerError error

text \<open>
  The messages sent to the user, by content: the score report of line 165 carries the
  number of correct answers, the number of questions, the percentage and the mistakes; the
  leaderboard of lines 196-202 carries one line per user with first name, last name, total
  and percentage.
\<close>

type_synonym stats_line = "pyval \<times> pyval \<times> int \<times> int"

datatype reply =
    PhotoReply nat
  | ImageNotFoundReply nat
  | RecommendationsReply
  | WrongCountReply
  | ResultReply nat nat int "(nat \<times> string) list"
  | AlreadySubmittedReply
  | ErrorReply
  | StatsReply "stats_line list"

type_synonym excel_row = "pyval \<times> pyval \<times> int"

text \<open>
  The module's globals (\<^verbatim>\<open>ANSWER_KEY\<close>, \<^verbatim>\<open>cached_stats\<close>, \<^verbatim>\<open>user_states\<close>), the files
  it reads and writes, and what it has sent and logged. \<open>cached_stats\<close> is \<open>PNone\<close> while
  the cache is unset. \<open>stats_writable\<close> and \<open>excel_writable\<close> say whether opening the file
  for writing succeeds; \<open>test_images\<close> says which of the two test images exist.
\<close>

record bot =
  ANSWER_KEY :: "string list"
  stats_file :: disk_file
  stats_writable :: bool
  excel_file :: "excel_row list option"
  excel_writable :: bool
  test_images :: "bool list"
  cached_stats :: pyval
  user_states :: "int \<rightharpoonup> session"
  outbox :: "reply list"
  logged :: "log_entry list"

text \<open>The fields of \<^verbatim>\<open>update.message\<close> that the handlers read.\<close>

record update =
  from_user_id :: int
  from_first_name :: string
  from_last_name :: "string option"
  message_text :: string

section \<open>Loading the answer key (\<^verbatim>\<open>load_answer_key\<close>, lines 35-54)\<close>

text \<open>\<open>Some\<close> of the strings when every element is a \<^verbatim>\<open>str\<close>.\<close>

fun strings_of :: "pyval list \<Rightarrow> string list option" where
  "strings_of [] = Some []"
| "strings_of (PStr s # xs) = map_option ((#) s) (strings_of xs)"
| "strings_of (_ # xs) = None"

text \<open>
  The result is the answer key and what was logged. \<^verbatim>\<open>FileNotFoundError\<close>,
  \<^verbatim>\<open>JSONDecodeError\<close> and \<^verbatim>\<open>ValueError\<close> are caught inside the function; the last is
  the exception of the validation and, as its subclass, the \<^verbatim>\<open>UnicodeDecodeError\<close> of
  reading the file. The \<^verbatim>\<open>AttributeError\<close> of \<^verbatim>\<open>data.get\<close> is not caught.
\<close>

definition load_answer_key :: "disk_file \<Rightarrow> error + (string list \<times> log_entry list)" where
  "load_answer_key answer_file =
     (case answer_file of
        Missing \<Rightarrow> Inr ([], [LogAnswerFileNotFound])
      | NotText \<Rightarrow> Inr ([], [LogAnswerFileNotText])
      | Undecodable \<Rightarrow> Inr ([], [LogAnswerFileDecodeError])
      | Document j \<Rightarrow>
          bind_err (py_get (json_load j) ''answers'' (PList []))
            (\<lambda>answers. case answers of
                PList xs \<Rightarrow>
                  (case strings_of xs of
                     Some ss \<Rightarrow> Inr (ss, [])
                   | None \<Rightarrow> Inr ([], [LogAnswerFileInvalid]))
              | _ \<Rightarrow> Inr ([], [LogAnswerFileInvalid])))"

text \<open>
  Importing the module (lines 31-33 and 56), in an environment \<open>env\<close> that gives the files
  and what has been sent and logged so far: an exception that leaves
  \<^verbatim>\<open>load_answer_key\<close> ends the process before any handler is registered.
\<close>

definition import_module :: "disk_file \<Rightarrow> bot \<Rightarrow> error + bot" where
  "import_module answer_file env =
     bind_err (load_answer_key answer_file)
       (\<lambda>(answers, msgs). Inr
          (env\<lparr>ANSWER_KEY := answers, cached_stats := PNone, user_states := Map.empty,
               logged := logged env @ msgs\<rparr>))"

section \<open>The stats store (\<^verbatim>\<open>load_stats\<close>, \<^verbatim>\<open>save_stats\<close>, \<^verbatim>\<open>save_stats_to_excel\<close>, lines 62-104)\<close>

text \<open>
  \<^verbatim>\<open>load_stats\<close> returns the cache when it is set. Otherwise it reads the file; only
  \<^verbatim>\<open>JSONDecodeError\<close> is caught, so the \<^verbatim>\<open>UnicodeDecodeError\<close> of reading the file and
  the \<^verbatim>\<open>AttributeError\<close> of \<^verbatim>\<open>.get\<close> leave the function. An exception leaves the state
  as it was.
\<close>

definition load_stats :: "bot \<Rightarrow> error + (pyval \<times> bot)" where
  "load_stats s =
     (if cached_stats s = PNone
      then (case stats_file s of
              Missing \<Rightarrow> Inr (PDict [], s\<lparr>cached_stats := PDict []\<rparr>)
            | NotText \<Rightarrow> Inl UnicodeDecodeError
            | Undecodable \<Rightarrow>
                Inr (PDict [], s\<lparr>cached_stats := PDict [],
                                  logged := logged s @ [LogStatsDecodeError]\<rparr>)
            | Document j \<Rightarrow>
                bind_err (py_get (json_load j) ''users'' (PDict []))
                  (\<lambda>users. Inr (users, s\<lparr>cached_stats := users\<rparr>)))
      else Inr (cached_stats s, s))"

definition save_stats :: "bot \<Rightarrow> pyval \<Rightarrow> bot" where
  "save_stats s stats =
     (let s1 = s\<lparr>cached_stats := stats\<rparr>
      in if stats_writable s1
         then s1\<lparr>stats_file := Document (json_dump (PDict [(KStr ''users'', stats)]))\<rparr>
         else s1\<lparr>logged := logged s1 @ [LogStatsWriteError]\<rparr>)"

text \<open>
  \<^verbatim>\<open>save_stats_to_excel\<close> builds one row for each item and writes the rows as a sheet,
  which is modelled by its rows. Of the writing, the failure that the code handles is
  modelled, an \<^verbatim>\<open>IOError\<close> when the file cannot be opened; an exception of the Excel writer
  about the content of a cell is outside the model.
\<close>

definition excel_row_of :: "key \<times> pyval \<Rightarrow> error + excel_row" where
  "excel_row_of item =
     (let user_data = snd item
      in bind_err (py_getitem_str user_data ''scores'') (\<lambda>scores.
         bind_err (py_sum scores) (\<lambda>total_correct.
         bind_err (py_getitem_str user_data ''first_name'') (\<lambda>first_name.
         bind_err (py_getitem_str user_data ''last_name'') (\<lambda>last_name.
           Inr (first_name, last_name, total_correct))))))"

definition save_stats_to_excel :: "bot \<Rightarrow> pyval \<Rightarrow> error + bot" where
  "save_stats_to_excel s stats =
     bind_err (py_items stats) (\<lambda>items.
     bind_err (map_err excel_row_of items) (\<lambda>data.
       Inr (if excel_writable s then s\<lparr>excel_file := Some data\<rparr>
            else s\<lparr>logged := logged s @ [LogExcelWriteError]\<rparr>)))"

section \<open>The handlers (lines 116-214)\<close>

text \<open>\<^verbatim>\<open>send_test\<close>, lines 116-140\<close>

fun send_images :: "nat \<Rightarrow> bool list \<Rightarrow> bot \<Rightarrow> bot" where
  "send_images i [] s = s"
| "send_images i (present # rest) s =
     send_images (Suc i) rest
       (if present then s\<lparr>outbox := outbox s @ [PhotoReply i]\<rparr>
        else s\<lparr>outbox := outbox s @ [ImageNotFoundReply i],
               logged := logged s @ [LogImageNotFound i]\<rparr>)"

definition send_test :: "bot \<Rightarrow> update \<Rightarrow> bot" where
  "send_test s0 u =
     (let s = s0\<lparr>logged := logged s0 @ [LogGetTestCalled]\<rparr>;
          s1 = s\<lparr>user_states := (user_states s)(from_user_id u \<mapsto> test_sent)\<rparr>;
          s2 = send_images 0 (test_images s1) s1
      in s2\<lparr>outbox := outbox s2 @ [RecommendationsReply]\<rparr>)"

text \<open>
  The scoring loop of \<^verbatim>\<open>submit_answers\<close>, lines 158-162: \<open>i\<close> is the index that
  \<^verbatim>\<open>enumerate\<close> supplies, each answer is one character of the message.
\<close>

fun score_loop ::
  "string list \<Rightarrow> nat \<Rightarrow> string \<Rightarrow> nat \<times> (nat \<times> string) list \<Rightarrow> nat \<times> (nat \<times> string) list"
where
  "score_loop answer_key i [] (correct_answers, incorrect_answers) =
     (correct_answers, incorrect_answers)"
| "score_loop answer_key i (answer # rest) (correct_answers, incorrect_answers) =
     (if i < length answer_key
         \<and> normalize_answer [answer] = normalize_answer (answer_key ! i)
      then score_loop answer_key (Suc i) rest (correct_answers + 1, incorrect_answers)
      else score_loop answer_key (Suc i) rest
             (correct_answers, incorrect_answers @ [(i + 1, [answer])]))"

text \<open>The record that line 171 stores.\<close>

definition user_record :: "string \<Rightarrow> string option \<Rightarrow> nat \<Rightarrow> pyval" where
  "user_record user_first_name user_last_name correct_answers =
     PDict [(KStr ''first_name'', PStr user_first_name),
            (KStr ''last_name'',
               (case user_last_name of None \<Rightarrow> PNone | Some l \<Rightarrow> PStr l)),
            (KStr ''scores'', PList [PInt (int correct_answers)])]"

text \<open>
  The condition of line 170:
  \<^verbatim>\<open>user_id not in stats or len(stats[user_id]['scores']) == 0\<close>
\<close>

definition first_attempt :: "pyval \<Rightarrow> int \<Rightarrow> error + bool" where
  "first_attempt stats user_id =
     bind_err (py_contains stats user_id) (\<lambda>present.
       if \<not> present then Inr True
       else bind_err (py_getitem_int stats user_id) (\<lambda>user_data.
            bind_err (py_getitem_str user_data ''scores'') (\<lambda>scores.
            bind_err (py_len scores) (\<lambda>n. Inr (n = 0)))))"

text \<open>
  Lines 170-177: the stats after the step and what was logged. An exception is raised
  before anything is stored.
\<close>

definition record_first_attempt ::
  "pyval \<Rightarrow> int \<Rightarrow> string \<Rightarrow> string option \<Rightarrow> nat \<Rightarrow> error + (pyval \<times> log_entry list)"
where
  "record_first_attempt stats user_id user_first_name user_last_name correct_answers =
     bind_err (first_attempt stats user_id) (\<lambda>first_time.
       if first_time
       then bind_err (py_setitem_int stats user_id
                        (user_record user_first_name user_last_name correct_answers))
              (\<lambda>stats'. Inr (stats', []))
       else Inr (stats, [LogRepeatAttempt user_id]))"

text \<open>
  \<^verbatim>\<open>submit_answers\<close>, lines 142-183. The result is the state when the function is
  left and the exception that left it, if any: what was sent, stored and written before
  an exception stays. \<^verbatim>\<open>stats\<close> is the object that \<^verbatim>\<open>cached_stats\<close> refers to, so the
  assignment of line 171 changes the cache at once.
\<close>

definition submit_answers :: "bot \<Rightarrow> update \<Rightarrow> bot \<times> error option" where
  "submit_answers s0 u =
     (let s = s0\<lparr>logged := logged s0 @ [LogSubmitCalled]\<rparr>;
          user_id = from_user_id u;
          user_answers = py_strip (message_text u);
          total_questions = length (ANSWER_KEY s)
      in if length user_answers \<noteq> total_questions
         then (s\<lparr>outbox := outbox s @ [WrongCountReply],
                 logged := logged s @ [LogWrongCount user_id]\<rparr>, None)
         else
           let (correct_answers, incorrect_answers) =
                 score_loop (ANSWER_KEY s) 0 user_answers (0, [])
           in case calculate_percentage (int correct_answers) (int total_questions) of
                Inl err \<Rightarrow> (s, Some err)
              | Inr percentage \<Rightarrow>
                  let s1 = s\<lparr>outbox := outbox s @
                             [ResultReply correct_answers total_questions percentage
                                incorrect_answers]\<rparr>
                  in case load_stats s1 of
                       Inl err \<Rightarrow> (s1, Some err)
                     | Inr (stats, s2) \<Rightarrow>
                         (case record_first_attempt stats user_id (from_first_name u)
                                 (from_last_name u) correct_answers of
                            Inl err \<Rightarrow> (s2, Some err)
                          | Inr (stats', msgs) \<Rightarrow>
                              let s3 = save_stats
                                         (s2\<lparr>cached_stats := stats',
                                             logged := logged s2 @ msgs\<rparr>) stats'
                              in case save_stats_to_excel s3 stats' of
                                   Inl err \<Rightarrow> (s3, Some err)
                                 | Inr s4 \<Rightarrow>
                                     (s4\<lparr>user_states :=
                                           (user_states s4)(user_id \<mapsto> answers_submitted)\<rparr>,
                                      None)))"

text \<open>\<^verbatim>\<open>show_stats\<close>, lines 191-202\<close>

definition stats_key :: "key \<times> pyval \<Rightarrow> error + int" where
  "stats_key x = bind_err (py_getitem_str (snd x) ''scores'') py_sum"

definition stats_line_of :: "nat \<Rightarrow> key \<times> pyval \<Rightarrow> error + stats_line" where
  "stats_line_of total_questions item =
     (let data = snd item
      in bind_err (py_getitem_str data ''scores'') (\<lambda>scores.
         bind_err (py_sum scores) (\<lambda>total_correct.
         bind_err (calculate_percentage total_correct (int total_questions)) (\<lambda>percentage.
         bind_err (py_getitem_str data ''first_name'') (\<lambda>first_name.
         bind_err (py_getitem_str data ''last_name'') (\<lambda>last_name.
           Inr (first_name, last_name, total_correct, percentage)))))))"

definition line_total :: "stats_line \<Rightarrow> int" where
  "line_total line = (case line of (first_name, last_name, total_correct, percentage) \<Rightarrow> total_correct)"

definition line_percentage :: "stats_line \<Rightarrow> int" where
  "line_percentage line = (case line of (first_name, last_name, total_correct, percentage) \<Rightarrow> percentage)"

text \<open>
  The text that \<^verbatim>\<open>show_stats\<close> sends, as its lines: the keys of all items are computed,
  the items are sorted by them, and one line is built for each item in that order.
\<close>

definition render :: "nat \<Rightarrow> pyval \<Rightarrow> error + stats_line list" where
  "render total_questions stats =
     bind_err (py_items stats) (\<lambda>items.
     bind_err (map_err stats_key items) (\<lambda>keys.
       map_err (stats_line_of total_questions)
         (map snd (sorted_reverse (zip keys items)))))"

definition show_stats :: "bot \<Rightarrow> bot \<times> error option" where
  "show_stats s0 =
     (let s = s0\<lparr>logged := logged s0 @ [LogShowStatsCalled]\<rparr>
      in case load_stats s of
           Inl err \<Rightarrow> (s, Some err)
         | Inr (stats, s1) \<Rightarrow>
             (case render (length (ANSWER_KEY s1)) stats of
                Inl err \<Rightarrow> (s1, Some err)
              | Inr lines \<Rightarrow> (s1\<lparr>outbox := outbox s1 @ [StatsReply lines]\<rparr>, None)))"

text \<open>\<^verbatim>\<open>handle_message\<close>, lines 204-214: every exception of the submission is caught.\<close>

definition handle_message :: "bot \<Rightarrow> update \<Rightarrow> bot" where
  "handle_message s u =
     (if user_states s (from_user_id u) = Some answers_submitted
      then s\<lparr>outbox := outbox s @ [AlreadySubmittedReply]\<rparr>
      else case submit_answers s u of
             (s', None) \<Rightarrow> s'
           | (s', Some err) \<Rightarrow>
               s'\<lparr>logged := logged s' @ [LogHandlerError err],
                  outbox := outbox s' @ [ErrorReply]\<rparr>)"

section \<open>Restarting the process\<close>

text \<open>
  When the process is stopped and started again, lines 32-33 run again: the cache is
  unset and the session states are empty. The files stay as they are.
\<close>

definition restart :: "bot \<Rightarrow> bot" where
  "restart s = s\<lparr>cached_stats := PNone, user_states := Map.empty\<rparr>"

text \<open>The integer keys of a dict; no other value has keys.\<close>

fun int_keys :: "pyval \<Rightarrow> int list" where
  "int_keys (PDict d) = concat (map (\<lambda>item. case fst item of KInt n \<Rightarrow> [n] | KStr name \<Rightarrow> []) d)"
| "int_keys _ = []"

section \<open>Example inputs\<close>

text \<open>
  A bot just started with the answer key \<^verbatim>\<open>["a", "b", "c"]\<close> and no stats file, and a
  message of a user; they serve as concrete inputs below.
\<close>

definition example_bot :: bot where
  "example_bot =
     \<lparr>ANSWER_KEY = [''a'', ''b'', ''c''], stats_file = Missing, stats_writable = True,
      excel_file = None, excel_writable = True, test_images = [False, False],
      cached_stats = PNone, user_states = Map.empty, outbox = [], logged = []\<rparr>"

definition example_update :: "int \<Rightarrow> string \<Rightarrow> update" where
  "example_update user_id text =
     \<lparr>from_user_id = user_id, from_first_name = ''Ann'', from_last_name = None,
      message_text = text\<rparr>"

section \<open>Properties of normalisation\<close>

lemma concat_split_ws: "concat (split_ws w s) = w @ filter (\<lambda>c. \<not> py_isspace c) s"
  by (induction s arbitrary: w) simp_all

lemma normalize_answer_filter:
  "normalize_answer s = map py_lower_char (filter (\<lambda>c. \<not> py_isspace c) s)"
  by (simp add: normalize_answer_def py_lower_def py_split_def concat_split_ws)

lemma of_char_py_lower_char:
  "(of_char (py_lower_char c) :: nat) =
     (let n = of_char c
      in if (65 \<le> n \<and> n \<le> 90) \<or> (192 \<le> n \<and> n \<le> 222 \<and> n \<noteq> 215) then n + 32 else n)"
  by (auto simp: py_lower_char_def Let_def)

lemma py_lower_char_idem: "py_lower_char (py_lower_char c) = py_lower_char c"
proof -
  have "(of_char (py_lower_char (py_lower_char c)) :: nat) = of_char (py_lower_char c)"
    by (simp add: of_char_py_lower_char [of "py_lower_char c"] Let_def)
       (auto simp: of_char_py_lower_char Let_def)
  then show ?thesis by simp
qed

lemma py_isspace_lower_char: "py_isspace (py_lower_char c) = py_isspace c"
  by (auto simp: py_isspace_def of_char_py_lower_char Let_def)

text \<open>On the code points 0 to 255 a normalised string is normalised to itself.\<close>

lemma normalize_answer_latin1_idempotent:
  "normalize_answer (normalize_answer x) = normalize_answer x"
proof -
  have "filter (\<lambda>c. \<not> py_isspace c) (map py_lower_char (filter (\<lambda>c. \<not> py_isspace c) x))
          = map py_lower_char (filter (\<lambda>c. \<not> py_isspace c) x)"
    by (induction x) (simp_all add: py_isspace_lower_char)
  then show ?thesis
    by (simp add: normalize_answer_filter py_lower_char_idem)
qed

section \<open>Properties of normalisation on every code point\<close>

lemma concat_split_ws_unicode:
  "concat (split_ws_unicode w s) = w @ filter (\<lambda>c. \<not> py_isspace_unicode c) s"
  by (induction s arbitrary: w) simp_all

lemma normalize_answer_unicode_filter:
  "normalize_answer_unicode s = lower_from [] (filter (\<lambda>c. \<not> py_isspace_unicode c) s)"
  by (simp add: normalize_answer_unicode_def py_lower_unicode_def py_split_unicode_def
      concat_split_ws_unicode)

text \<open>The table read as one nested conditional, for evaluation.\<close>

lemmas lower_delta_chain =
  lower_delta_def [unfolded lower_blocks_def block_delta.simps range_delta.simps]

lemmas is_cased_chain = is_cased_def [unfolded cased_ranges_def in_ranges.simps]

lemmas is_case_ignorable_chain =
  is_case_ignorable_def [unfolded case_ignorable_ranges_def in_ranges.simps]

text \<open>Every code point that a run produces is one of \<open>block_images\<close>.\<close>

lemma run_images_member:
  "k < n \<Longrightarrow> nat (int (lo + k * step) + delta) \<in> set (run_images n lo step delta)"
proof (induction n arbitrary: lo k)
  case 0
  then show ?case by simp
next
  case (Suc n)
  show ?case
  proof (cases k)
    case 0
    then show ?thesis by simp
  next
    case (Suc j)
    with Suc.prems have "j < n" by simp
    from Suc.IH [OF this, of "lo + step"]
    have "nat (int (lo + step + j * step) + delta) \<in> set (run_images n (lo + step) step delta)" .
    moreover have "lo + step + j * step = lo + k * step"
      using Suc by simp
    ultimately show ?thesis by simp
  qed
qed

lemma range_delta_image:
  "range_delta rs c \<noteq> 0 \<Longrightarrow> nat (int c + range_delta rs c) \<in> set (range_images rs)"
proof (induction rs)
  case Nil
  then show ?case by simp
next
  case (Cons r rs)
  obtain lo hi step delta where r: "r = (lo, hi, step, delta)"
    by (cases r) auto
  show ?case
  proof (cases "hi < c")
    case True
    with Cons r show ?thesis by simp
  next
    case False
    with Cons.prems r have hit: "lo \<le> c" "(c - lo) mod step = 0" and d: "range_delta (r # rs) c = delta"
      by (auto split: if_splits)
    define k where "k = (c - lo) div step"
    have "c - lo = k * step"
      using hit(2) by (auto simp: k_def)
    with hit(1) have c: "c = lo + k * step" by simp
    have "k \<le> (hi - lo) div step"
      unfolding k_def using False by (intro div_le_mono) simp
    then have "k < Suc ((hi - lo) div step)" by simp
    from run_images_member [OF this, of lo step delta]
    have "nat (int (lo + k * step) + delta) \<in> set (range_images (r # rs))"
      unfolding r by (simp only: range_images.simps set_append Un_iff) simp
    then have "nat (int c + delta) \<in> set (range_images (r # rs))"
      unfolding c .
    then show ?thesis
      unfolding d .
  qed
qed

lemma block_delta_image:
  "block_delta bs c \<noteq> 0 \<Longrightarrow> nat (int c + block_delta bs c) \<in> set (block_images bs)"
proof (induction bs)
  case Nil
  then show ?case by simp
next
  case (Cons b bs)
  obtain bound rs where "b = (bound, rs)"
    by (cases b) auto
  with Cons show ?case
    by (auto dest: range_delta_image split: if_splits)
qed

text \<open>
  Evaluation of the table: no code point that a run produces is in a run itself, is
  U+0130 or is white space; the same holds of the other code points that lowering
  produces.
\<close>

lemma run_images_numeral:
  "run_images (numeral k) lo step delta =
     nat (int lo + delta) # run_images (pred_numeral k) (lo + step) step delta"
  by (simp add: numeral_eq_Suc)

lemma images_lowered: "list_all lowered (block_images lower_blocks)"
  unfolding lower_blocks_def
  by (simp add: run_images_numeral lowered_def lower_delta_chain py_isspace_unicode_def)

lemma lowered_special: "lowered 0x69" "lowered 0x307" "lowered 0x3C2" "lowered 0x3C3"
  by (simp_all add: lowered_def lower_delta_chain py_isspace_unicode_def)

lemma lowered_not_sigma: "lowered c \<Longrightarrow> c \<noteq> 0x3A3"
  by (auto simp: lowered_def lower_delta_chain)

lemma lowered_to_lower_full: "lowered c \<Longrightarrow> to_lower_full c = [c]"
  by (simp add: lowered_def to_lower_full_def)

lemma to_lower_full_lowered:
  assumes "\<not> py_isspace_unicode c" and "p \<in> set (to_lower_full c)"
  shows "lowered p"
proof (cases "c = 0x130")
  case True
  with assms(2) show ?thesis
    by (auto simp: to_lower_full_def lowered_special)
next
  case False
  with assms(2) have p: "p = nat (int c + lower_delta c)"
    by (simp add: to_lower_full_def)
  show ?thesis
  proof (cases "lower_delta c = 0")
    case True
    with p False assms(1) show ?thesis
      by (simp add: lowered_def)
  next
    case False
    then have "p \<in> set (block_images lower_blocks)"
      unfolding p lower_delta_def by (rule block_delta_image)
    with images_lowered show ?thesis
      by (simp add: list_all_iff)
  qed
qed

text \<open>
  Lowering a string without white space gives code points that stay as they are, whatever
  the context of a capital sigma was; and a string of such code points is lowered to
  itself.
\<close>

lemma lower_from_lowered:
  "\<forall>c \<in> set s. \<not> py_isspace_unicode c \<Longrightarrow> \<forall>p \<in> set (lower_from before s). lowered p"
proof (induction s arbitrary: before)
  case Nil
  then show ?case by simp
next
  case (Cons c cs)
  then have "\<forall>p \<in> set (lower_from (c # before) cs). lowered p"
    by simp
  moreover have "\<forall>p \<in> set (to_lower_full c). lowered p"
    using Cons.prems by (auto intro: to_lower_full_lowered)
  ultimately show ?case
    by (auto simp: lowered_special)
qed

lemma lower_from_fixed:
  "\<forall>c \<in> set s. lowered c \<Longrightarrow> lower_from before s = s"
  by (induction s arbitrary: before) (auto simp: lowered_to_lower_full dest: lowered_not_sigma)

lemma lowered_not_space: "lowered c \<Longrightarrow> \<not> py_isspace_unicode c"
  by (simp add: lowered_def)

lemma normalize_answer_unicode_lowered:
  "\<forall>p \<in> set (normalize_answer_unicode x). lowered p"
  unfolding normalize_answer_unicode_filter by (rule lower_from_lowered) simp

text \<open>
  Claim C8: \<open>normalize\<close> is idempotent: for every string \<open>x\<close>, of any code points,
  normalising the normalised \<open>x\<close> returns the normalised \<open>x\<close>.
\<close>

theorem normalize_answer_idempotent:
  "normalize_answer_unicode (normalize_answer_unicode x) = normalize_answer_unicode x"
proof -
  let ?y = "normalize_answer_unicode x"
  have low: "\<forall>p \<in> set ?y. lowered p"
    by (rule normalize_answer_unicode_lowered)
  then have "filter (\<lambda>c. \<not> py_isspace_unicode c) ?y = ?y"
    by (auto intro: filter_True dest: lowered_not_space)
  then have "normalize_answer_unicode ?y = lower_from [] ?y"
    by (simp add: normalize_answer_unicode_filter [of ?y])
  also have "\<dots> = ?y"
    using low by (rule lower_from_fixed)
  finally show ?thesis .
qed

text \<open>
  Examples: Cyrillic text, the two forms of the Greek small sigma, and U+0130, which
  lowers to two code points.
\<close>

lemma normalize_answer_unicode_examples:
  "normalize_answer_unicode
     [0x20, 0x41F, 0x420, 0x418, 0x412, 0x415, 0x422, 0x20, 0x20, 0x43C, 0x438, 0x440, 0xA]
   = [0x43F, 0x440, 0x438, 0x432, 0x435, 0x442, 0x43C, 0x438, 0x440]"
  "normalize_answer_unicode
     [0x39F, 0x394, 0x39F, 0x3A3, 0x20, 0x3A3, 0x39F, 0x3A6, 0x39F, 0x3A3]
   = [0x3BF, 0x3B4, 0x3BF, 0x3C3, 0x3C3, 0x3BF, 0x3C6, 0x3BF, 0x3C2]"
  "normalize_answer_unicode [0x130, 0x20, 0x3A3] = [0x69, 0x307, 0x3C2]"
  by (simp_all add: normalize_answer_unicode_filter py_isspace_unicode_def to_lower_full_def
      lower_delta_chain final_sigma_def is_cased_chain is_case_ignorable_chain)

text \<open>
  On the code points 0 to 255 the normalisation is \<open>normalize_answer\<close>, which the handlers
  use.
\<close>

lemma py_isspace_unicode_below_256:
  "n < 256 \<Longrightarrow>
   py_isspace_unicode n = ((9 \<le> n \<and> n \<le> 13) \<or> (28 \<le> n \<and> n \<le> 32) \<or> n = 133 \<or> n = 160)"
  by (auto simp: py_isspace_unicode_def)

lemma py_isspace_unicode_latin1: "py_isspace_unicode (of_char c) = py_isspace c"
  by (simp add: py_isspace_unicode_below_256 [of "of_char c"] py_isspace_def Let_def)

lemma lower_delta_latin1:
  "n < 256 \<Longrightarrow>
   lower_delta n = (if (65 \<le> n \<and> n \<le> 90) \<or> (192 \<le> n \<and> n \<le> 222 \<and> n \<noteq> 215) then 32 else 0)"
  by (simp add: lower_delta_chain)

lemma to_lower_full_below_256:
  "n < 256 \<Longrightarrow>
   to_lower_full n =
     [if (65 \<le> n \<and> n \<le> 90) \<or> (192 \<le> n \<and> n \<le> 222 \<and> n \<noteq> 215) then n + 32 else n]"
  by (auto simp: to_lower_full_def lower_delta_latin1)

lemma to_lower_full_latin1: "to_lower_full (of_char c) = [of_char (py_lower_char c)]"
  by (simp add: to_lower_full_below_256 [of "of_char c"] of_char_py_lower_char Let_def)

lemma below_256_not_sigma: "n < 256 \<Longrightarrow> n \<noteq> (0x3A3 :: nat)"
  by simp

lemma lower_from_latin1: "lower_from before (map of_char s) = map of_char (map py_lower_char s)"
proof (induction s arbitrary: before)
  case Nil
  then show ?case by simp
next
  case (Cons c cs)
  have "(of_char c :: nat) \<noteq> 0x3A3"
    by (rule below_256_not_sigma) simp
  with Cons show ?case
    by (simp add: to_lower_full_latin1)
qed

lemma normalize_answer_latin1:
  "normalize_answer_unicode (map of_char s) = map of_char (normalize_answer s)"
proof -
  have "filter (\<lambda>c. \<not> py_isspace_unicode c) (map of_char s)
          = map of_char (filter (\<lambda>c. \<not> py_isspace c) s)"
    by (induction s) (simp_all add: py_isspace_unicode_latin1)
  then show ?thesis
    by (simp add: normalize_answer_unicode_filter normalize_answer_filter lower_from_latin1)
qed

section \<open>Properties of the percentage\<close>

lemma bit_length_bounds:
  "0 < n \<Longrightarrow> 2 ^ (bit_length n - 1) \<le> n \<and> n < 2 ^ bit_length n"
proof (induction n rule: bit_length.induct)
  case (1 n)
  show ?case
  proof (cases "n div 2 = 0")
    case True
    with "1.prems" have "n = 1" by presburger
    then show ?thesis by (simp add: bit_length.simps)
  next
    case False
    with "1.IH" "1.prems"
    have IH: "2 ^ (bit_length (n div 2) - 1) \<le> n div 2" "n div 2 < 2 ^ bit_length (n div 2)"
      by simp_all
    have pos: "0 < bit_length (n div 2)"
      using False by (simp add: bit_length.simps [of "n div 2"])
    have eq: "bit_length n = Suc (bit_length (n div 2))"
      using "1.prems" by (simp add: bit_length.simps [of n])
    have "2 * 2 ^ (bit_length (n div 2) - 1) \<le> n" using IH(1) by presburger
    moreover have "2 * 2 ^ (bit_length (n div 2) - 1) = (2::nat) ^ bit_length (n div 2)"
      using pos by (cases "bit_length (n div 2)") simp_all
    moreover have "n < 2 * 2 ^ bit_length (n div 2)" using IH(2) by presburger
    ultimately show ?thesis by (simp add: eq)
  qed
qed

lemma bit_length_le_iff: "bit_length n \<le> k \<longleftrightarrow> n < 2 ^ k"
proof (cases "n = 0")
  case True
  then show ?thesis by (simp add: bit_length.simps)
next
  case False
  then have b: "2 ^ (bit_length n - 1) \<le> n" "n < 2 ^ bit_length n"
    using bit_length_bounds [of n] by simp_all
  show ?thesis
  proof
    assume "bit_length n \<le> k"
    then have "(2::nat) ^ bit_length n \<le> 2 ^ k" by (simp add: power_increasing)
    with b(2) show "n < 2 ^ k" by (rule less_le_trans)
  next
    assume "n < 2 ^ k"
    with b(1) have "(2::nat) ^ (bit_length n - 1) < 2 ^ k" by (rule le_less_trans)
    then have "bit_length n - 1 < k" by (simp add: power_strict_increasing_iff)
    then show "bit_length n \<le> k" by simp
  qed
qed

lemma bit_length_mono: "m \<le> n \<Longrightarrow> bit_length m \<le> bit_length n"
proof -
  assume "m \<le> n"
  have "n < 2 ^ bit_length n" using bit_length_le_iff [of n "bit_length n"] by simp
  with \<open>m \<le> n\<close> have "m < 2 ^ bit_length n" by (rule le_less_trans)
  then show ?thesis by (simp add: bit_length_le_iff)
qed

lemma bit_length_pos: "0 < n \<Longrightarrow> 0 < bit_length n"
  by (simp add: bit_length.simps [of n])

lemma floor_log2_le: "floor_log2 n d \<le> int (bit_length (nat n)) - int (bit_length (nat d))"
  by (simp add: floor_log2_def Let_def)

lemma round_half_even_bounds:
  "n div d \<le> round_half_even n d \<and> round_half_even n d \<le> n div d + 1"
  by (simp add: round_half_even_def Let_def)


lemma bit_length_power2: "bit_length (2 ^ j) = Suc j"
proof -
  have "bit_length (2 ^ j) \<le> Suc j" by (simp add: bit_length_le_iff)
  moreover have "\<not> bit_length (2 ^ j) \<le> j" by (simp add: bit_length_le_iff)
  ultimately show ?thesis by simp
qed

lemma round_half_even_nonneg: "0 < d \<Longrightarrow> 0 \<le> n \<Longrightarrow> 0 \<le> round_half_even n d"
  using round_half_even_bounds [of n d] by (smt (verit) pos_imp_zdiv_nonneg_iff)

lemma round_half_even_le:
  assumes "0 < d" and "n \<le> x * d"
  shows "round_half_even n d \<le> x"
proof (cases "n div d < x")
  case True
  then show ?thesis using round_half_even_bounds [of n d] by simp
next
  case False
  have "n div d \<le> (x * d) div d" using assms by (intro zdiv_mono1)
  also have "\<dots> = x" using assms(1) by simp
  finally have q: "n div d = x" using False by simp
  have "n = d * (n div d) + n mod d" by simp
  with q assms have "n mod d \<le> 0" by (simp add: mult.commute)
  moreover have "0 \<le> n mod d" using assms(1) by simp
  ultimately have "n mod d = 0" by simp
  with q assms(1) show ?thesis by (simp add: round_half_even_def Let_def)
qed

lemma to_double_small:
  assumes "0 < n" and "n \<le> d"
  shows "\<exists>m e. to_double n d = Finite m e \<and> e \<le> - 52 \<and> 0 \<le> m \<and> m \<le> 2 ^ nat (- e)"
proof -
  define e where "e = max (floor_log2 n d - 52) (- 1074)"
  define m where "m = round_half_even (n * 2 ^ nat (- e)) d"
  have abs: "\<bar>n\<bar> = n" using assms(1) by simp
  have "bit_length (nat n) \<le> bit_length (nat d)"
    using assms by (intro bit_length_mono) simp
  then have "floor_log2 n d \<le> 0"
    using floor_log2_le [of n d] by simp
  then have e: "e \<le> - 52" by (simp add: e_def)
  then have neg: "\<not> 0 \<le> e" by simp
  have td: "to_double n d = Finite m e"
    unfolding to_double_def Let_def abs e_def [symmetric]
    using assms(1) neg by (simp add: m_def)
  have "0 \<le> m" unfolding m_def using assms by (intro round_half_even_nonneg) simp_all
  moreover have "m \<le> 2 ^ nat (- e)"
    unfolding m_def using assms by (intro round_half_even_le) (simp_all add: mult.commute)
  ultimately show ?thesis using td e by blast
qed

lemma float_mul_100_small:
  assumes "e \<le> - 52" and "0 \<le> m" and "m \<le> 2 ^ nat (- e)"
  shows "\<exists>p. py_round (float_mul_int (Finite m e) 100) = Inr p \<and> 0 \<le> p \<and> p \<le> 100"
proof (cases "m = 0")
  case True
  then show ?thesis using assms(1) by (simp add: to_double_def)
next
  case False
  define j where "j = nat (- e)"
  define e' where "e' = max (floor_log2 (m * 100) (2 ^ j) - 52) (- 1074)"
  have abs: "\<bar>m * 100\<bar> = m * 100" using assms(2) by simp
  define m' where "m' = round_half_even (m * 100 * 2 ^ nat (- e')) (2 ^ j)"
  have j: "52 \<le> j" using assms(1) by (simp add: j_def)
  have mj: "m \<le> 2 ^ j" using assms(3) by (simp add: j_def)
  have "nat (m * 100) < 2 ^ (j + 7)"
  proof -
    have "0 < (2::int) ^ j" by simp
    with mj have "m * 100 < 2 ^ j * 128" by linarith
    also have "\<dots> = 2 ^ (j + 7)" by (simp add: power_add)
    finally have "m * 100 < int (2 ^ (j + 7))" by simp
    then show ?thesis using assms(2) by (simp add: nat_less_iff)
  qed
  then have "bit_length (nat (m * 100)) \<le> j + 7" by (simp add: bit_length_le_iff)
  moreover have "bit_length (nat (2 ^ j)) = Suc j"
    using bit_length_power2 [of j] by (simp add: nat_power_eq)
  ultimately have "floor_log2 (m * 100) (2 ^ j) \<le> 6"
    using floor_log2_le [of "m * 100" "2 ^ j"] by simp
  then have e': "e' \<le> - 46" "- 1074 \<le> e'" by (simp_all add: e'_def)
  then have neg: "\<not> 0 \<le> e'" by simp
  have "float_mul_int (Finite m e) 100 = to_double (m * 100) (2 ^ j)"
    using assms(1) by (simp add: j_def)
  also have "\<dots> = Finite m' e'"
    unfolding to_double_def Let_def abs e'_def [symmetric]
    using False neg by (simp add: m'_def)
  finally have fm: "float_mul_int (Finite m e) 100 = Finite m' e'" .
  have "0 \<le> m'" unfolding m'_def using assms(2) by (intro round_half_even_nonneg) simp_all
  moreover have "m' \<le> 100 * 2 ^ nat (- e')"
    unfolding m'_def using mj by (intro round_half_even_le) simp_all
  ultimately have "0 \<le> round_half_even m' (2 ^ nat (- e'))"
    and "round_half_even m' (2 ^ nat (- e')) \<le> 100"
    by (intro round_half_even_nonneg round_half_even_le; simp)+
  then show ?thesis using fm e' by simp
qed

lemma calculate_percentage_total:
  assumes "0 < t" and "0 \<le> c" and "c \<le> t"
  shows "\<exists>q p. int_truediv c t = Inr q \<and> py_round (float_mul_int q 100) = Inr p
           \<and> calculate_percentage c t = Inr p \<and> 0 \<le> p \<and> p \<le> 100"
proof (cases "c = 0")
  case True
  then show ?thesis using assms(1)
    by (simp add: calculate_percentage_def int_truediv_def to_double_def)
next
  case False
  with assms have "0 < c" by simp
  from to_double_small [OF this assms(3)] obtain m e
    where me: "to_double c t = Finite m e" "e \<le> - 52" "0 \<le> m" "m \<le> 2 ^ nat (- e)"
    by blast
  from float_mul_100_small [OF me(2-4)] obtain p
    where p: "py_round (float_mul_int (Finite m e) 100) = Inr p" "0 \<le> p" "p \<le> 100"
    by blast
  have "int_truediv c t = Inr (Finite m e)"
    using assms(1) me(1) by (simp add: int_truediv_def)
  then show ?thesis using p assms(1) by (simp add: calculate_percentage_def)
qed

lemma calculate_percentage_no_zero_division:
  "calculate_percentage c t \<noteq> Inl ZeroDivisionError"
proof (cases "t = 0")
  case True
  then show ?thesis by (simp add: calculate_percentage_def)
next
  case False
  then have "int_truediv c t \<noteq> Inl ZeroDivisionError"
    by (simp add: int_truediv_def split: pyfloat.splits)
  moreover have "py_round x \<noteq> Inl ZeroDivisionError" for x
    by (cases x) simp_all
  ultimately show ?thesis
    using False by (auto simp: calculate_percentage_def split: sum.splits)
qed

text \<open>
  Claim C7: \<open>percentage(c, t)\<close> is \<^verbatim>\<open>round(c / t * 100)\<close> for every \<open>0 < t\<close> and
  \<open>0 \<le> c \<le> t\<close>, where the division, the product and the rounding all return a value,
  and the value lies between 0 and 100; it is 0 when \<open>t\<close> is 0; and it never raises
  \<^verbatim>\<open>ZeroDivisionError\<close>.
\<close>

theorem calculate_percentage_spec:
  "(0 < t \<and> 0 \<le> c \<and> c \<le> t \<longrightarrow>
      (\<exists>q p. int_truediv c t = Inr q \<and> py_round (float_mul_int q 100) = Inr p
         \<and> calculate_percentage c t = Inr p \<and> 0 \<le> p \<and> p \<le> 100))
   \<and> calculate_percentage c 0 = Inr 0
   \<and> calculate_percentage c t \<noteq> Inl ZeroDivisionError"
proof (intro conjI impI)
  assume "0 < t \<and> 0 \<le> c \<and> c \<le> t"
  then show "\<exists>q p. int_truediv c t = Inr q \<and> py_round (float_mul_int q 100) = Inr p
      \<and> calculate_percentage c t = Inr p \<and> 0 \<le> p \<and> p \<le> 100"
    using calculate_percentage_total [of t c] by blast
next
  show "calculate_percentage c 0 = Inr 0" by (simp add: calculate_percentage_def)
next
  show "calculate_percentage c t \<noteq> Inl ZeroDivisionError"
    by (rule calculate_percentage_no_zero_division)
qed

theorem calculate_percentage_spec_witness:
  "(0::int) < 3 \<and> (0::int) \<le> 2 \<and> (2::int) \<le> 3
   \<and> (\<exists>q p. int_truediv 2 3 = Inr q \<and> py_round (float_mul_int q 100) = Inr p
         \<and> calculate_percentage 2 3 = Inr p \<and> 0 \<le> p \<and> p \<le> 100)
   \<and> calculate_percentage 2 0 = Inr 0
   \<and> calculate_percentage 2 3 \<noteq> Inl ZeroDivisionError"
  using calculate_percentage_spec [of 3 2] by simp

text \<open>
  The rounding is that of Python on doubles: a tie goes to the even integer, and the
  double product can fall below a tie that the exact quotient reaches.
\<close>

lemma calculate_percentage_examples:
  "calculate_percentage 2 3 = Inr 67"
  "calculate_percentage 1 8 = Inr 12"
  "calculate_percentage 3 8 = Inr 38"
  "calculate_percentage 23 40 = Inr 57"
  by (simp_all add: calculate_percentage_def int_truediv_def to_double_def floor_log2_def
        bit_length.simps round_half_even_def Let_def)

section \<open>The rounding to doubles is correct\<close>

lemma round_half_even_cases:
  "(round_half_even n d = n div d \<and> 2 * (n mod d) \<le> d
      \<and> (2 * (n mod d) = d \<longrightarrow> even (n div d)))
   \<or> (round_half_even n d = n div d + 1 \<and> d \<le> 2 * (n mod d)
      \<and> (2 * (n mod d) = d \<longrightarrow> odd (n div d)))"
  by (simp add: round_half_even_def Let_def)

lemma round_half_even_nearest:
  assumes "0 < d"
  shows "\<bar>2 * (n - round_half_even n d * d)\<bar> \<le> d"
proof -
  have n: "n = n div d * d + n mod d" by simp
  have r: "0 \<le> n mod d" "n mod d < d" using assms by simp_all
  from round_half_even_cases [of n d]
  consider (down) "round_half_even n d = n div d" "2 * (n mod d) \<le> d"
    | (up) "round_half_even n d = n div d + 1" "d \<le> 2 * (n mod d)"
    by blast
  then show ?thesis
  proof cases
    case down
    have eq: "n - round_half_even n d * d = n mod d"
      unfolding down(1) using n by linarith
    show ?thesis unfolding eq using down(2) r by (simp add: abs_if)
  next
    case up
    have eq: "n - round_half_even n d * d = n mod d - d"
      unfolding up(1) using n by (simp add: algebra_simps)
    show ?thesis unfolding eq using up(2) r by (simp add: abs_if)
  qed
qed

lemma round_half_even_tie:
  assumes "0 < d" and "\<bar>2 * (n - round_half_even n d * d)\<bar> = d"
  shows "even (round_half_even n d)"
proof -
  have n: "n = n div d * d + n mod d" by simp
  have r: "0 \<le> n mod d" "n mod d < d" using assms by simp_all
  from round_half_even_cases [of n d]
  consider (down) "round_half_even n d = n div d" "2 * (n mod d) = d \<longrightarrow> even (n div d)"
    | (up) "round_half_even n d = n div d + 1" "2 * (n mod d) = d \<longrightarrow> odd (n div d)"
    by blast
  then show ?thesis
  proof cases
    case down
    have eq: "n - round_half_even n d * d = n mod d"
      unfolding down(1) using n by linarith
    from assms(2) have "2 * (n mod d) = d"
      unfolding eq using r by (simp add: abs_if split: if_splits)
    with down show ?thesis by simp
  next
    case up
    have eq: "n - round_half_even n d * d = n mod d - d"
      unfolding up(1) using n by (simp add: algebra_simps)
    from assms(2) have "2 * (n mod d) = d"
      unfolding eq using r by (simp add: abs_if split: if_splits)
    with up show ?thesis by simp
  qed
qed

lemma floor_log2_bounds:
  assumes "0 < n" and "0 < d"
  shows "(0 \<le> floor_log2 n d \<longrightarrow>
            d * 2 ^ nat (floor_log2 n d) \<le> n \<and> n < d * 2 ^ nat (floor_log2 n d + 1))
       \<and> (floor_log2 n d < 0 \<longrightarrow>
            d \<le> n * 2 ^ nat (- floor_log2 n d) \<and> n * 2 ^ nat (- floor_log2 n d) < 2 * d)"
proof -
  define bn where "bn = bit_length (nat n)"
  define bd where "bd = bit_length (nat d)"
  have bn: "2 ^ (bn - 1) \<le> n" "n < 2 ^ bn" "0 < bn"
    using bit_length_bounds [of "nat n"] bit_length_pos [of "nat n"] assms(1)
    unfolding bn_def by (simp_all add: nat_le_iff nat_less_iff)
  have bd: "2 ^ (bd - 1) \<le> d" "d < 2 ^ bd" "0 < bd"
    using bit_length_bounds [of "nat d"] bit_length_pos [of "nat d"] assms(2)
    unfolding bd_def by (simp_all add: nat_le_iff nat_less_iff)
  have pbn: "(2::int) ^ bn = 2 * 2 ^ (bn - 1)" using bn(3) by (cases bn) simp_all
  have pbd: "(2::int) ^ bd = 2 * 2 ^ (bd - 1)" using bd(3) by (cases bd) simp_all
  define k where "k = int bn - int bd"
  have fl: "floor_log2 n d =
      (if (if 0 \<le> k then d * 2 ^ nat k \<le> n else d \<le> n * 2 ^ nat (- k)) then k else k - 1)"
    by (simp add: floor_log2_def Let_def k_def bn_def bd_def)
  show ?thesis
  proof (cases "0 \<le> k")
    case True
    define j where "j = nat k"
    have kj: "k = int j" "bn = bd + j" using True by (simp_all add: j_def k_def)
    have upper: "n < d * 2 ^ Suc j"
    proof -
      have "n < 2 ^ bd * 2 ^ j" using bn(2) by (simp add: kj power_add)
      also have "\<dots> = 2 ^ (bd - 1) * 2 ^ Suc j" by (simp add: pbd)
      also have "\<dots> \<le> d * 2 ^ Suc j" using bd(1) by (intro mult_right_mono) simp_all
      finally show ?thesis .
    qed
    show ?thesis
    proof (cases "d * 2 ^ j \<le> n")
      case le: True
      then have "floor_log2 n d = int j" by (simp add: fl kj)
      with le upper show ?thesis by (simp add: nat_add_distrib)
    next
      case gt: False
      then have flj: "floor_log2 n d = int j - 1" by (simp add: fl kj)
      show ?thesis
      proof (cases j)
        case 0
        have "d \<le> 2 * n"
        proof -
          have "d < 2 ^ bn" using bd(2) 0 by (simp add: kj)
          also have "\<dots> \<le> 2 * n" using bn(1) by (simp add: pbn)
          finally show ?thesis by simp
        qed
        with flj 0 gt show ?thesis by simp
      next
        case (Suc i)
        have "d * 2 ^ i \<le> 2 ^ bd * 2 ^ i" using bd(2) by (intro mult_right_mono) simp_all
        also have "\<dots> = 2 ^ (bn - 1)" by (simp add: kj Suc power_add)
        also have "\<dots> \<le> n" by (rule bn(1))
        finally have "d * 2 ^ i \<le> n" .
        moreover have "nat (int i + 1) = Suc i" by simp
        ultimately show ?thesis using flj Suc gt by simp
      qed
    qed
  next
    case False
    define j where "j = nat (- k)"
    have kj: "k = - int j" "bd = bn + j" "0 < j" using False by (simp_all add: j_def k_def)
    have upper: "n * 2 ^ j < 2 * d"
    proof -
      have "n * 2 ^ j < 2 ^ bn * 2 ^ j" using bn(2) by (intro mult_strict_right_mono) simp_all
      also have "\<dots> = 2 * 2 ^ (bd - 1)" using pbd by (simp add: kj(1,2) power_add)
      also have "\<dots> \<le> 2 * d" using bd(1) by simp
      finally show ?thesis .
    qed
    have lower: "d \<le> n * 2 ^ Suc j"
    proof -
      have "d \<le> 2 ^ bd" using bd(2) by simp
      also have "\<dots> = 2 ^ (bn - 1) * 2 ^ Suc j" by (simp add: kj(1,2) power_add pbn)
      also have "\<dots> \<le> n * 2 ^ Suc j" using bn(1) by (intro mult_right_mono) simp_all
      finally show ?thesis .
    qed
    show ?thesis
    proof (cases "d \<le> n * 2 ^ j")
      case le: True
      then have "floor_log2 n d = - int j" using kj(3) by (simp add: fl kj(1,2))
      with le upper kj(3) show ?thesis by simp
    next
      case gt: False
      then have "floor_log2 n d = - int j - 1" using kj(3) by (simp add: fl kj(1,2))
      moreover have "nat (int j + 1) = Suc j" by simp
      ultimately show ?thesis using lower gt by (simp add: nat_add_distrib)
    qed
  qed
qed


lemma round_half_even_ge:
  assumes "0 < d" and "x * d \<le> n"
  shows "x \<le> round_half_even n d"
proof -
  have "(x * d) div d \<le> n div d" using assms by (intro zdiv_mono1)
  then have "x \<le> n div d" using assms(1) by simp
  with round_half_even_bounds [of n d] show ?thesis by linarith
qed

text \<open>
  The scaled quotient that \<open>to_double\<close> rounds lies between \<open>2 ^ 52\<close> and \<open>2 ^ 53\<close>,
  unless the exponent is held at -1074.
\<close>

lemma to_double_scaled:
  assumes "0 < n" and "0 < d"
  defines "e \<equiv> max (floor_log2 n d - 52) (- 1074)"
  shows "0 \<le> e \<Longrightarrow> n < 2 ^ 53 * (d * 2 ^ nat e)"
    and "0 \<le> e \<Longrightarrow> 2 ^ 52 * (d * 2 ^ nat e) \<le> n"
    and "e < 0 \<Longrightarrow> n * 2 ^ nat (- e) < 2 ^ 53 * d"
    and "e < 0 \<Longrightarrow> - 1074 < e \<Longrightarrow> 2 ^ 52 * d \<le> n * 2 ^ nat (- e)"
proof -
  define k where "k = floor_log2 n d"
  note b = floor_log2_bounds [OF assms(1,2), folded k_def]
  have e: "e = max (k - 52) (- 1074)" by (simp add: e_def k_def)
  {
    assume "0 \<le> e"
    then have k: "52 \<le> k" "e = k - 52" by (simp_all add: e)
    then have nk: "nat k = 52 + nat e" "nat (k + 1) = 53 + nat e" by simp_all
    from b k have "d * 2 ^ nat k \<le> n" "n < d * 2 ^ nat (k + 1)" by simp_all
    then show "n < 2 ^ 53 * (d * 2 ^ nat e)" and "2 ^ 52 * (d * 2 ^ nat e) \<le> n"
      unfolding nk by (simp_all add: power_add mult_ac)
  }
  {
    assume neg: "e < 0"
    show "n * 2 ^ nat (- e) < 2 ^ 53 * d"
    proof (cases "0 \<le> k")
      case True
      with neg have j: "nat (- e) \<le> 52 - nat k" "nat k \<le> 52" by (simp_all add: e)
      from b True have "n < d * 2 ^ nat (k + 1)" by simp
      then have "n * 2 ^ nat (- e) < d * 2 ^ nat (k + 1) * 2 ^ nat (- e)"
        by (intro mult_strict_right_mono) simp_all
      also have "\<dots> = d * 2 ^ (nat (k + 1) + nat (- e))" by (simp add: power_add)
      also have "\<dots> \<le> d * 2 ^ 53"
        using j True assms(2) by (intro mult_left_mono power_increasing) simp_all
      finally show ?thesis by (simp add: mult.commute)
    next
      case False
      then have j: "nat (- e) \<le> 52 + nat (- k)" by (simp add: e)
      from b False have "n * 2 ^ nat (- k) < 2 * d" by simp
      have "n * 2 ^ nat (- e) \<le> n * 2 ^ (52 + nat (- k))"
        using j assms(1) by (intro mult_left_mono power_increasing) simp_all
      also have "\<dots> = n * 2 ^ nat (- k) * 2 ^ 52" by (simp add: power_add)
      also have "\<dots> < 2 * d * 2 ^ 52"
        using \<open>n * 2 ^ nat (- k) < 2 * d\<close> by (intro mult_strict_right_mono) simp_all
      finally show ?thesis by simp
    qed
    assume "- 1074 < e"
    then have ek: "e = k - 52" by (simp add: e)
    show "2 ^ 52 * d \<le> n * 2 ^ nat (- e)"
    proof (cases "0 \<le> k")
      case True
      with neg ek have j: "nat (- e) + nat k = 52" by simp
      from b True have dn: "d * 2 ^ nat k \<le> n" by simp
      have "2 ^ 52 * d = d * 2 ^ (nat (- e) + nat k)" by (simp only: j mult.commute)
      also have "\<dots> = d * 2 ^ nat k * 2 ^ nat (- e)" by (simp add: power_add)
      also have "\<dots> \<le> n * 2 ^ nat (- e)"
        using dn by (intro mult_right_mono) simp_all
      finally show ?thesis .
    next
      case False
      with ek have j: "nat (- e) = 52 + nat (- k)" by simp
      from b False have "d \<le> n * 2 ^ nat (- k)" by simp
      then have "d * 2 ^ 52 \<le> n * 2 ^ nat (- k) * 2 ^ 52"
        by (intro mult_right_mono) simp_all
      then show ?thesis unfolding j by (simp add: power_add mult_ac)
    qed
  }
qed

text \<open>
  \<open>to_double\<close> agrees with the format of a double: for a positive quotient without
  overflow, the mantissa has at most 53 bits, and exactly 53 unless the exponent is the
  least one; the result is a nearest value of that form, and on a tie the mantissa is even.
\<close>

lemma to_double_correct:
  assumes "0 < n" and "0 < d" and "to_double n d = Finite m e"
  shows "- 1074 \<le> e" and "0 \<le> m" and "m \<le> 2 ^ 53" and "- 1074 < e \<Longrightarrow> 2 ^ 52 \<le> m"
    and "0 \<le> e \<Longrightarrow> \<bar>2 * (n - m * (d * 2 ^ nat e))\<bar> \<le> d * 2 ^ nat e"
    and "e < 0 \<Longrightarrow> \<bar>2 * (n * 2 ^ nat (- e) - m * d)\<bar> \<le> d"
    and "0 \<le> e \<Longrightarrow> \<bar>2 * (n - m * (d * 2 ^ nat e))\<bar> = d * 2 ^ nat e \<Longrightarrow> even m"
    and "e < 0 \<Longrightarrow> \<bar>2 * (n * 2 ^ nat (- e) - m * d)\<bar> = d \<Longrightarrow> even m"
proof -
  define e' where "e' = max (floor_log2 n d - 52) (- 1074)"
  have abs: "\<bar>n\<bar> = n" using assms(1) by simp
  from assms(1,3) have e: "e = e'"
    and m: "m = (if 0 \<le> e then round_half_even n (d * 2 ^ nat e)
                 else round_half_even (n * 2 ^ nat (- e)) d)"
    unfolding to_double_def Let_def abs e'_def [symmetric]
    by (auto split: if_splits)
  note sc = to_double_scaled [OF assms(1,2), folded e'_def, folded e]
  show "- 1074 \<le> e" by (simp add: e e'_def)
  have pos: "0 < d * 2 ^ nat e" using assms(2) by simp
  show "0 \<le> m"
    unfolding m using assms(1,2) by (simp add: round_half_even_nonneg)
  show "m \<le> 2 ^ 53"
  proof (cases "0 \<le> e")
    case True
    with sc(1) have "n \<le> 2 ^ 53 * (d * 2 ^ nat e)" by simp
    with True pos show ?thesis unfolding m by (simp add: round_half_even_le)
  next
    case False
    with sc(3) have "n * 2 ^ nat (- e) \<le> 2 ^ 53 * d" by simp
    with False assms(2) show ?thesis unfolding m by (simp add: round_half_even_le)
  qed
  show "2 ^ 52 \<le> m" if "- 1074 < e"
  proof (cases "0 \<le> e")
    case True
    with sc(2) pos show ?thesis unfolding m by (simp add: round_half_even_ge)
  next
    case False
    with sc(4) that assms(2) show ?thesis unfolding m by (simp add: round_half_even_ge)
  qed
  show "\<bar>2 * (n - m * (d * 2 ^ nat e))\<bar> \<le> d * 2 ^ nat e" if "0 \<le> e"
    using that round_half_even_nearest [OF pos, of n] by (simp add: m)
  show "\<bar>2 * (n * 2 ^ nat (- e) - m * d)\<bar> \<le> d" if "e < 0"
    using that round_half_even_nearest [OF assms(2), of "n * 2 ^ nat (- e)"] by (simp add: m)
  show "even m" if "0 \<le> e" "\<bar>2 * (n - m * (d * 2 ^ nat e))\<bar> = d * 2 ^ nat e"
    using that round_half_even_tie [OF pos, of n] by (simp add: m)
  show "even m" if "e < 0" "\<bar>2 * (n * 2 ^ nat (- e) - m * d)\<bar> = d"
    using that round_half_even_tie [OF assms(2), of "n * 2 ^ nat (- e)"] by (simp add: m)
qed

section \<open>Properties of the scoring loop\<close>

lemmas eval_answers =
  normalize_answer_filter py_isspace_def py_lower_char_def char_of_def bit_Suc_0_iff

lemma score_loop_from:
  "score_loop answer_key (length pre) rest (c, inc) =
     (c + length (filter (\<lambda>i. i < length answer_key
               \<and> normalize_answer [(pre @ rest) ! i] = normalize_answer (answer_key ! i))
             [length pre..<length pre + length rest]),
      inc @ map (\<lambda>i. (i + 1, [(pre @ rest) ! i]))
              (filter (\<lambda>i. \<not> (i < length answer_key
                  \<and> normalize_answer [(pre @ rest) ! i] = normalize_answer (answer_key ! i)))
                [length pre..<length pre + length rest]))"
proof (induction rest arbitrary: pre c inc)
  case Nil
  then show ?case by simp
next
  case (Cons answer rest)
  have step: "score_loop answer_key (Suc (length pre)) rest (c', inc') =
      (c' + length (filter (\<lambda>i. i < length answer_key
               \<and> normalize_answer [(pre @ answer # rest) ! i] = normalize_answer (answer_key ! i))
             [Suc (length pre)..<Suc (length pre) + length rest]),
       inc' @ map (\<lambda>i. (i + 1, [(pre @ answer # rest) ! i]))
              (filter (\<lambda>i. \<not> (i < length answer_key
                  \<and> normalize_answer [(pre @ answer # rest) ! i] = normalize_answer (answer_key ! i)))
                [Suc (length pre)..<Suc (length pre) + length rest]))" for c' inc'
    using Cons.IH [of "pre @ [answer]" c' inc'] by simp
  have range: "[length pre..<length pre + length (answer # rest)] =
      length pre # [Suc (length pre)..<Suc (length pre) + length rest]"
    by (subst upt_rec) simp
  show ?case
    unfolding range by (simp add: step)
qed

text \<open>
  Claim C6: for a submission and a key of the same length \<open>n\<close>, the loop counts the
  positions \<open>i < n\<close> at which the normalised answers agree, and lists \<open>(i + 1, submission[i])\<close>
  for the other positions, in order. The key \<^verbatim>\<open>["a", "b", "c"]\<close> with the submission
  \<^verbatim>\<open>"abd"\<close> gives 2 correct answers, the mistakes \<^verbatim>\<open>[(3, "d")]\<close> and 67 percent.
\<close>

theorem score_loop_spec:
  "(length submission = length answer_key \<longrightarrow>
      score_loop answer_key 0 submission (0, []) =
        (length (filter (\<lambda>i. normalize_answer [submission ! i] = normalize_answer (answer_key ! i))
                   [0..<length answer_key]),
         map (\<lambda>i. (i + 1, [submission ! i]))
           (filter (\<lambda>i. normalize_answer [submission ! i] \<noteq> normalize_answer (answer_key ! i))
              [0..<length answer_key])))
   \<and> score_loop [''a'', ''b'', ''c''] 0 ''abd'' (0, []) = (2, [(3, ''d'')])
   \<and> calculate_percentage 2 (int (length [''a'', ''b'', ''c''])) = Inr 67"
proof (intro conjI impI)
  assume len: "length submission = length answer_key"
  have "filter (\<lambda>i. i < length answer_key
            \<and> normalize_answer [submission ! i] = normalize_answer (answer_key ! i))
          [0..<length answer_key]
        = filter (\<lambda>i. normalize_answer [submission ! i] = normalize_answer (answer_key ! i))
          [0..<length answer_key]"
    by (rule filter_cong) simp_all
  moreover have "filter (\<lambda>i. \<not> (i < length answer_key
            \<and> normalize_answer [submission ! i] = normalize_answer (answer_key ! i)))
          [0..<length answer_key]
        = filter (\<lambda>i. normalize_answer [submission ! i] \<noteq> normalize_answer (answer_key ! i))
          [0..<length answer_key]"
    by (rule filter_cong) simp_all
  ultimately show "score_loop answer_key 0 submission (0, []) =
        (length (filter (\<lambda>i. normalize_answer [submission ! i] = normalize_answer (answer_key ! i))
                   [0..<length answer_key]),
         map (\<lambda>i. (i + 1, [submission ! i]))
           (filter (\<lambda>i. normalize_answer [submission ! i] \<noteq> normalize_answer (answer_key ! i))
              [0..<length answer_key]))"
    using score_loop_from [of answer_key "[]" submission 0 "[]"] len by simp
next
  show "score_loop [''a'', ''b'', ''c''] 0 ''abd'' (0, []) = (2, [(3, ''d'')])"
    by (simp add: eval_answers)
next
  show "calculate_percentage 2 (int (length [''a'', ''b'', ''c''])) = Inr 67"
    by (simp add: calculate_percentage_examples)
qed

theorem score_loop_spec_witness:
  "length ''Ab d'' = length [''a'', ''b'', ''c'', ''d'']
   \<and> score_loop [''a'', ''b'', ''c'', ''d''] 0 ''Ab d'' (0, []) = (3, [(3, '' '')])"
  using score_loop_spec [of "''Ab d''" "[''a'', ''b'', ''c'', ''d'']"]
  by (simp add: eval_answers upt_rec)

section \<open>Properties of loading\<close>

lemma bind_err_simps [simp]:
  "bind_err (Inl err) f = Inl err"
  "bind_err (Inr x) f = f x"
  by (simp_all add: bind_err_def)

lemma bind_err_eq_Inr:
  "bind_err r f = Inr y \<longleftrightarrow> (\<exists>x. r = Inr x \<and> f x = Inr y)"
  by (cases r) simp_all

text \<open>
  What \<^verbatim>\<open>load_answer_key\<close> handles: a missing file, bytes that are not text, text that is
  not JSON, and an object whose \<^verbatim>\<open>answers\<close> member is not a list of strings are logged and
  give the empty key. It raises exactly when the document is valid JSON but not an object.
\<close>

lemma load_answer_key_missing:
  "load_answer_key Missing = Inr ([], [LogAnswerFileNotFound])"
  by (simp add: load_answer_key_def)

lemma load_answer_key_not_text:
  "load_answer_key NotText = Inr ([], [LogAnswerFileNotText])"
  by (simp add: load_answer_key_def)

lemma load_answer_key_undecodable:
  "load_answer_key Undecodable = Inr ([], [LogAnswerFileDecodeError])"
  by (simp add: load_answer_key_def)

lemma load_answer_key_object:
  assumes "json_load j = PDict d"
  shows "load_answer_key (Document j) =
     (case map_of d (KStr ''answers'') of
        None \<Rightarrow> Inr ([], [])
      | Some (PList xs) \<Rightarrow>
          (case strings_of xs of
             Some ss \<Rightarrow> Inr (ss, [])
           | None \<Rightarrow> Inr ([], [LogAnswerFileInvalid]))
      | Some _ \<Rightarrow> Inr ([], [LogAnswerFileInvalid]))"
  using assms by (simp add: load_answer_key_def split: option.splits pyval.splits)

lemma load_answer_key_raises:
  "load_answer_key f = Inl err \<longleftrightarrow>
     err = AttributeError \<and> (\<exists>j. f = Document j \<and> (\<forall>ms. j \<noteq> JObj ms))"
proof (cases f)
  case (Document j)
  then show ?thesis
    by (cases j) (auto simp: load_answer_key_def split: option.splits pyval.splits)
qed (simp_all add: load_answer_key_def)

text \<open>
  Claim C4 says that every answer-key document with a structural violation is logged, gives
  the empty key and never ends the process. The document \<^verbatim>\<open>[1, 2]\<close> is valid JSON, but it
  is not an object and its elements are not strings; for it \<^verbatim>\<open>data.get\<close> raises
  \<^verbatim>\<open>AttributeError\<close>, which none of the three handlers catches, so nothing is logged and
  the import of the module fails.
\<close>

theorem load_answer_key_top_level_array:
  "load_answer_key (Document (JArr [JInt 1, JInt 2])) = Inl AttributeError
   \<and> import_module (Document (JArr [JInt 1, JInt 2])) env = Inl AttributeError"
  by (simp add: load_answer_key_def import_module_def)

text \<open>
  What \<^verbatim>\<open>load_stats\<close> handles: with the cache unset, text that is not a JSON document
  gives the empty mapping and a log entry, and a missing file gives the empty mapping.
\<close>

lemma load_stats_undecodable_or_missing:
  "cached_stats s = PNone \<Longrightarrow>
     (stats_file s = Undecodable \<longrightarrow>
        load_stats s = Inr (PDict [], s\<lparr>cached_stats := PDict [],
                                          logged := logged s @ [LogStatsDecodeError]\<rparr>))
     \<and> (stats_file s = Missing \<longrightarrow>
        load_stats s = Inr (PDict [], s\<lparr>cached_stats := PDict []\<rparr>))"
  by (simp add: load_stats_def)

text \<open>When the cache is set, the file is not read.\<close>

lemma load_stats_cached:
  "cached_stats s \<noteq> PNone \<Longrightarrow> load_stats s = Inr (cached_stats s, s)"
  by (simp add: load_stats_def)

text \<open>What \<^verbatim>\<open>load_stats\<close> may change: the cache and the log.\<close>

lemma load_stats_frame:
  assumes "load_stats s = Inr (stats, s')"
  shows "cached_stats s' = stats"
    and "\<exists>msgs. s' = s\<lparr>cached_stats := stats, logged := logged s @ msgs\<rparr>"
proof -
  have "cached_stats s' = stats \<and> (\<exists>msgs. s' = s\<lparr>cached_stats := stats, logged := logged s @ msgs\<rparr>)"
  proof (cases "cached_stats s = PNone")
    case False
    with assms show ?thesis by (auto simp: load_stats_def intro: exI [of _ "[]"])
  next
    case True
    show ?thesis
    proof (cases "stats_file s")
      case Missing
      with True assms show ?thesis by (auto simp: load_stats_def intro: exI [of _ "[]"])
    next
      case NotText
      with True assms show ?thesis by (simp add: load_stats_def)
    next
      case Undecodable
      with True assms show ?thesis by (auto simp: load_stats_def)
    next
      case (Document j)
      with True assms show ?thesis
        by (auto simp: load_stats_def bind_err_eq_Inr intro: exI [of _ "[]"])
    qed
  qed
  then show "cached_stats s' = stats"
    and "\<exists>msgs. s' = s\<lparr>cached_stats := stats, logged := logged s @ msgs\<rparr>" by blast+
qed

text \<open>
  \<^verbatim>\<open>load_stats\<close> raises exactly when the cache is unset and the file holds bytes that are
  not text, or a JSON document that is not an object.
\<close>

lemma load_stats_raises:
  "load_stats s = Inl err \<longleftrightarrow>
     cached_stats s = PNone
     \<and> (err = UnicodeDecodeError \<and> stats_file s = NotText
        \<or> err = AttributeError \<and> (\<exists>j. stats_file s = Document j \<and> (\<forall>ms. j \<noteq> JObj ms)))"
proof (cases "cached_stats s = PNone")
  case False
  then show ?thesis by (simp add: load_stats_def)
next
  case True
  show ?thesis
  proof (cases "stats_file s")
    case (Document j)
    with True show ?thesis by (cases j) (auto simp: load_stats_def)
  qed (use True in \<open>auto simp: load_stats_def\<close>)
qed

text \<open>
  Claim C3 says that every malformed stats document gives the empty mapping and a log
  entry, and never an exception. The document \<^verbatim>\<open>[1, 2]\<close> is well-formed JSON but not the
  object that \<^verbatim>\<open>save_stats\<close> writes; for it \<^verbatim>\<open>.get\<close> raises \<^verbatim>\<open>AttributeError\<close> at line 69,
  which the one handler, of \<^verbatim>\<open>JSONDecodeError\<close>, does not catch: \<^verbatim>\<open>load_stats\<close> raises,
  nothing is logged, and \<^verbatim>\<open>show_stats\<close> ends with the exception. A file whose bytes are
  not UTF-8 text makes \<^verbatim>\<open>load_stats\<close> raise in the same way.
\<close>

theorem load_stats_top_level_array:
  "load_stats (s\<lparr>cached_stats := PNone, stats_file := Document (JArr [JInt 1, JInt 2])\<rparr>)
     = Inl AttributeError
   \<and> show_stats (s\<lparr>cached_stats := PNone, stats_file := Document (JArr [JInt 1, JInt 2])\<rparr>)
     = (s\<lparr>cached_stats := PNone, stats_file := Document (JArr [JInt 1, JInt 2]),
          logged := logged s @ [LogShowStatsCalled]\<rparr>, Some AttributeError)
   \<and> load_stats (s\<lparr>cached_stats := PNone, stats_file := NotText\<rparr>) = Inl UnicodeDecodeError"
  by (simp add: load_stats_def show_stats_def)

section \<open>A first submission, evaluated\<close>

text \<open>
  User 7 sends \<^verbatim>\<open>abd\<close> to the bot that has just started: the score is reported, the
  record is stored in the cache, the file and the export, and the session state is set.
\<close>

lemmas eval_handlers =
  handle_message_def submit_answers_def Let_def load_stats_def record_first_attempt_def
  first_attempt_def user_record_def save_stats_def save_stats_to_excel_def excel_row_of_def
  py_strip_def example_bot_def example_update_def calculate_percentage_examples
  py_str_int_def digits.simps dict_of_pairs_def

lemma example_update_fields [simp]:
  "from_user_id (example_update user_id text) = user_id"
  "from_first_name (example_update user_id text) = ''Ann''"
  "from_last_name (example_update user_id text) = None"
  "message_text (example_update user_id text) = text"
  by (simp_all add: example_update_def)

lemma example_first_submission:
  "handle_message example_bot (example_update 7 ''abd'') =
     \<lparr>ANSWER_KEY = [''a'', ''b'', ''c''],
      stats_file = Document (JObj [(''users'', JObj [(''7'',
        JObj [(''first_name'', JStr ''Ann''), (''last_name'', JNull),
              (''scores'', JArr [JInt 2])])])]),
      stats_writable = True,
      excel_file = Some [(PStr ''Ann'', PNone, 2)], excel_writable = True,
      test_images = [False, False],
      cached_stats = PDict [(KInt 7, user_record ''Ann'' None 2)],
      user_states = [7 \<mapsto> answers_submitted],
      outbox = [ResultReply 2 3 67 [(3, ''d'')]],
      logged = [LogSubmitCalled]\<rparr>"
  by (simp add: eval_handlers eval_answers)

section \<open>Properties of the handlers\<close>

text \<open>What the two saving functions may change.\<close>

lemma save_stats_frame:
  "cached_stats (save_stats s stats) = stats"
  "user_states (save_stats s stats) = user_states s"
  "ANSWER_KEY (save_stats s stats) = ANSWER_KEY s"
  "outbox (save_stats s stats) = outbox s"
  by (simp_all add: save_stats_def Let_def)

lemma save_stats_to_excel_frame:
  assumes "save_stats_to_excel s stats = Inr s'"
  shows "cached_stats s' = cached_stats s" and "user_states s' = user_states s"
    and "ANSWER_KEY s' = ANSWER_KEY s" and "stats_file s' = stats_file s"
    and "outbox s' = outbox s"
  using assms by (auto simp: save_stats_to_excel_def bind_err_eq_Inr split: if_splits)

text \<open>
  Claim C5: a submission whose length differs from the length of the answer key is
  answered with the rejection of line 154 and nothing else: no score is reported, and the
  stats cache, the stats file, the export and the session states stay as they were. Only
  the two log entries of lines 144 and 155 are added.
\<close>

theorem submit_answers_wrong_length:
  "length (py_strip (message_text u)) \<noteq> length (ANSWER_KEY s) \<Longrightarrow>
     submit_answers s u =
       (s\<lparr>outbox := outbox s @ [WrongCountReply],
          logged := logged s @ [LogSubmitCalled, LogWrongCount (from_user_id u)]\<rparr>, None)
     \<and> cached_stats (fst (submit_answers s u)) = cached_stats s
     \<and> stats_file (fst (submit_answers s u)) = stats_file s
     \<and> excel_file (fst (submit_answers s u)) = excel_file s
     \<and> user_states (fst (submit_answers s u)) = user_states s"
  by (simp add: submit_answers_def Let_def)

theorem submit_answers_wrong_length_witness:
  "length (py_strip (message_text (example_update 7 '' ab ''))) \<noteq> length (ANSWER_KEY example_bot)
   \<and> submit_answers example_bot (example_update 7 '' ab '') =
       (example_bot\<lparr>outbox := [WrongCountReply], logged := [LogSubmitCalled, LogWrongCount 7]\<rparr>,
        None)"
proof -
  have "length (py_strip (message_text (example_update 7 '' ab '')))
      \<noteq> length (ANSWER_KEY example_bot)"
    by (simp add: py_strip_def py_isspace_def example_bot_def)
  from submit_answers_wrong_length [OF this] this show ?thesis
    by (simp add: example_bot_def)
qed

text \<open>
  The session states after \<^verbatim>\<open>submit_answers\<close>: unchanged, or changed for the sender
  alone, to \<^verbatim>\<open>'answers_submitted'\<close>.
\<close>

lemma submit_answers_user_states:
  "user_states (fst (submit_answers s u)) = user_states s
   \<or> user_states (fst (submit_answers s u)) =
       (user_states s)(from_user_id u \<mapsto> answers_submitted)"
proof (cases "length (py_strip (message_text u)) = length (ANSWER_KEY s)")
  case False
  then show ?thesis by (simp add: submit_answers_def Let_def)
next
  case True
  define s0 where "s0 = s\<lparr>logged := logged s @ [LogSubmitCalled]\<rparr>"
  obtain c inc where sc: "score_loop (ANSWER_KEY s) 0 (py_strip (message_text u)) (0, []) = (c, inc)"
    by (cases "score_loop (ANSWER_KEY s) 0 (py_strip (message_text u)) (0, [])")
  show ?thesis
  proof (cases "calculate_percentage (int c) (int (length (ANSWER_KEY s)))")
    case (Inl err)
    with True sc show ?thesis by (simp add: submit_answers_def Let_def)
  next
    case (Inr pct)
    define s1 where "s1 = s0\<lparr>outbox := outbox s0 @
        [ResultReply c (length (ANSWER_KEY s)) pct inc]\<rparr>"
    show ?thesis
    proof (cases "load_stats s1")
      case (Inl err)
      with True sc Inr show ?thesis
        by (simp add: submit_answers_def Let_def s1_def s0_def)
    next
      case ld: (Inr r)
      obtain stats s2 where r: "r = (stats, s2)" by (cases r)
      from load_stats_frame(2) [OF ld [unfolded r]]
      have us2: "user_states s2 = user_states s" by (auto simp: s1_def s0_def)
      show ?thesis
      proof (cases "record_first_attempt stats (from_user_id u) (from_first_name u)
                      (from_last_name u) c")
        case (Inl err)
        with True sc Inr ld r us2 show ?thesis
          by (simp add: submit_answers_def Let_def s1_def s0_def)
      next
        case rec: (Inr r')
        obtain stats' msgs where r': "r' = (stats', msgs)" by (cases r')
        define s3 where "s3 = save_stats (s2\<lparr>cached_stats := stats',
            logged := logged s2 @ msgs\<rparr>) stats'"
        have us3: "user_states s3 = user_states s"
          by (simp add: s3_def save_stats_frame us2)
        show ?thesis
        proof (cases "save_stats_to_excel s3 stats'")
          case (Inl err)
          with True sc Inr ld r rec r' us3 show ?thesis
            by (simp add: submit_answers_def Let_def s1_def s0_def s3_def)
        next
          case ex: (Inr s4)
          from save_stats_to_excel_frame(2) [OF ex] us3
          have "user_states s4 = user_states s" by simp
          with True sc Inr ld r rec r' ex show ?thesis
            by (simp add: submit_answers_def Let_def s1_def s0_def s3_def)
        qed
      qed
    qed
  qed
qed

lemma handle_message_keeps_submitted:
  assumes "user_states s user_id = Some answers_submitted"
  shows "user_states (handle_message s u) user_id = Some answers_submitted"
proof (cases "user_states s (from_user_id u) = Some answers_submitted")
  case True
  with assms show ?thesis by (simp add: handle_message_def)
next
  case False
  obtain s' err where sub: "submit_answers s u = (s', err)" by (cases "submit_answers s u")
  with submit_answers_user_states [of s u] assms
  have "user_states s' user_id = Some answers_submitted" by auto
  with False sub show ?thesis by (cases err) (simp_all add: handle_message_def)
qed

lemma foldl_handle_message_keeps_submitted:
  "user_states s user_id = Some answers_submitted \<Longrightarrow>
     user_states (foldl handle_message s us) user_id = Some answers_submitted"
  by (induction us arbitrary: s) (simp_all add: handle_message_keeps_submitted)

text \<open>
  Claim C2: for a user whose session state is \<^verbatim>\<open>'answers_submitted'\<close>, a free-text
  message is answered with the notice of line 209 and changes nothing else: no score is
  reported and the stats cache, the stats file and the export stay as they were. The state
  stays \<^verbatim>\<open>'answers_submitted'\<close> whatever messages of whatever users are handled, so
  every further message of that user is answered this way.
\<close>

theorem handle_message_gate:
  "user_states s (from_user_id u) = Some answers_submitted \<Longrightarrow>
     handle_message s u = s\<lparr>outbox := outbox s @ [AlreadySubmittedReply]\<rparr>
     \<and> handle_message (foldl handle_message s us) u =
         (foldl handle_message s us)
           \<lparr>outbox := outbox (foldl handle_message s us) @ [AlreadySubmittedReply]\<rparr>"
  using foldl_handle_message_keeps_submitted [of s "from_user_id u" us]
  by (simp add: handle_message_def)

theorem handle_message_gate_witness:
  "user_states (handle_message example_bot (example_update 7 ''abd''))
     (from_user_id (example_update 7 ''abc'')) = Some answers_submitted
   \<and> handle_message (handle_message example_bot (example_update 7 ''abd''))
       (example_update 7 ''abc'') =
     (handle_message example_bot (example_update 7 ''abd''))
       \<lparr>outbox := [ResultReply 2 3 67 [(3, ''d'')], AlreadySubmittedReply]\<rparr>"
proof -
  have "user_states (handle_message example_bot (example_update 7 ''abd''))
     (from_user_id (example_update 7 ''abc'')) = Some answers_submitted"
    by (simp add: example_first_submission)
  from handle_message_gate [OF this, of "[]"] this show ?thesis
    by (simp add: example_first_submission)
qed

text \<open>
  The state \<^verbatim>\<open>'answers_submitted'\<close> is left by the command \<^verbatim>\<open>/get_test\<close> alone, which
  sets \<^verbatim>\<open>'test_sent'\<close> (line 121).
\<close>

lemma send_test_user_states:
  "user_states (send_test s u) = (user_states s)(from_user_id u \<mapsto> test_sent)"
proof -
  have "user_states (send_images i images s') = user_states s'" for i images s'
    by (induction i images s' rule: send_images.induct) simp_all
  then show ?thesis by (simp add: send_test_def Let_def)
qed

section \<open>The first-attempt-only policy\<close>

lemma first_attempt_absent:
  "map_of d (KInt user_id) = None \<Longrightarrow> first_attempt (PDict d) user_id = Inr True"
  by (simp add: first_attempt_def)

lemma first_attempt_present:
  "map_of d (KInt user_id) = Some user_data \<Longrightarrow>
     first_attempt (PDict d) user_id =
       bind_err (py_getitem_str user_data ''scores'') (\<lambda>scores.
       bind_err (py_len scores) (\<lambda>n. Inr (n = 0)))"
  by (simp add: first_attempt_def)

lemma first_attempt_user_record:
  "map_of d (KInt user_id) = Some (user_record f l c) \<Longrightarrow>
     first_attempt (PDict d) user_id = Inr False"
  by (simp add: first_attempt_present user_record_def)

lemma record_first_attempt_set:
  "first_attempt (PDict d) user_id = Inr True \<Longrightarrow>
     record_first_attempt (PDict d) user_id f l c =
       Inr (PDict (AList.update (KInt user_id) (user_record f l c) d), [])"
  by (simp add: record_first_attempt_def)

lemma record_first_attempt_repeat:
  "first_attempt stats user_id = Inr False \<Longrightarrow>
     record_first_attempt stats user_id f l c = Inr (stats, [LogRepeatAttempt user_id])"
  by (simp add: record_first_attempt_def)

text \<open>A record with a score survives every later step, of the same user or of another.\<close>

lemma record_first_attempt_keeps:
  assumes "map_of d (KInt user_id) = Some (user_record f l c)"
    and "record_first_attempt (PDict d) user_id' f' l' c' = Inr (stats', msgs)"
  shows "\<exists>d'. stats' = PDict d' \<and> map_of d' (KInt user_id) = Some (user_record f l c)"
proof (cases "user_id' = user_id")
  case True
  with assms show ?thesis
    by (auto simp: record_first_attempt_repeat first_attempt_user_record)
next
  case False
  from assms(2) consider "stats' = PDict d"
    | "stats' = PDict (AList.update (KInt user_id') (user_record f' l' c') d)"
    by (auto simp: record_first_attempt_def bind_err_eq_Inr split: if_splits)
  then show ?thesis
  proof cases
    case 1
    with assms(1) show ?thesis by simp
  next
    case 2
    with assms(1) False show ?thesis by (simp add: update_conv')
  qed
qed

lemma submit_answers_cached:
  assumes "cached_stats s \<noteq> PNone"
  shows "cached_stats (fst (submit_answers s u)) = cached_stats s
    \<or> (\<exists>c msgs. record_first_attempt (cached_stats s) (from_user_id u) (from_first_name u)
           (from_last_name u) c = Inr (cached_stats (fst (submit_answers s u)), msgs))"
proof (cases "length (py_strip (message_text u)) = length (ANSWER_KEY s)")
  case False
  then show ?thesis by (simp add: submit_answers_def Let_def)
next
  case True
  define s0 where "s0 = s\<lparr>logged := logged s @ [LogSubmitCalled]\<rparr>"
  obtain c inc where sc: "score_loop (ANSWER_KEY s) 0 (py_strip (message_text u)) (0, []) = (c, inc)"
    by (cases "score_loop (ANSWER_KEY s) 0 (py_strip (message_text u)) (0, [])")
  show ?thesis
  proof (cases "calculate_percentage (int c) (int (length (ANSWER_KEY s)))")
    case (Inl err)
    with True sc show ?thesis by (simp add: submit_answers_def Let_def)
  next
    case (Inr pct)
    define s1 where "s1 = s0\<lparr>outbox := outbox s0 @
        [ResultReply c (length (ANSWER_KEY s)) pct inc]\<rparr>"
    have cs1: "cached_stats s1 = cached_stats s" by (simp add: s1_def s0_def)
    with assms have ld: "load_stats s1 = Inr (cached_stats s, s1)"
      using load_stats_cached [of s1] by simp
    show ?thesis
    proof (cases "record_first_attempt (cached_stats s) (from_user_id u) (from_first_name u)
                    (from_last_name u) c")
      case (Inl err)
      with True sc Inr ld cs1 show ?thesis
        by (simp add: submit_answers_def Let_def s1_def s0_def)
    next
      case rec: (Inr r')
      obtain stats' msgs where r': "r' = (stats', msgs)" by (cases r')
      define s3 where "s3 = save_stats (s1\<lparr>cached_stats := stats',
          logged := logged s1 @ msgs\<rparr>) stats'"
      have cs3: "cached_stats s3 = stats'"
        by (simp add: s3_def save_stats_frame)
      have "cached_stats (fst (submit_answers s u)) = stats'"
      proof (cases "save_stats_to_excel s3 stats'")
        case (Inl err)
        with True sc Inr ld rec r' cs3 show ?thesis
          by (simp add: submit_answers_def Let_def s1_def s0_def s3_def)
      next
        case ex: (Inr s4)
        from save_stats_to_excel_frame(1) [OF ex] cs3
        have "cached_stats s4 = stats'" by simp
        with True sc Inr ld rec r' ex show ?thesis
          by (simp add: submit_answers_def Let_def s1_def s0_def s3_def)
      qed
      with rec r' show ?thesis by blast
    qed
  qed
qed

lemma handle_message_keeps_record:
  assumes "cached_stats s = PDict d" and "map_of d (KInt user_id) = Some (user_record f l c)"
  shows "\<exists>d'. cached_stats (handle_message s u) = PDict d'
           \<and> map_of d' (KInt user_id) = Some (user_record f l c)"
proof -
  have sub: "\<exists>d'. cached_stats (fst (submit_answers s u)) = PDict d'
           \<and> map_of d' (KInt user_id) = Some (user_record f l c)"
    using submit_answers_cached [of s u] assms
    by (auto dest: record_first_attempt_keeps [OF assms(2)])
  show ?thesis
  proof (cases "user_states s (from_user_id u) = Some answers_submitted")
    case True
    with assms show ?thesis by (simp add: handle_message_def)
  next
    case False
    obtain s' err where r: "submit_answers s u = (s', err)" by (cases "submit_answers s u")
    with sub False show ?thesis by (cases err) (simp_all add: handle_message_def)
  qed
qed

lemma foldl_handle_message_keeps_record:
  "cached_stats s = PDict d \<Longrightarrow> map_of d (KInt user_id) = Some (user_record f l c) \<Longrightarrow>
     \<exists>d'. cached_stats (foldl handle_message s us) = PDict d'
        \<and> map_of d' (KInt user_id) = Some (user_record f l c)"
proof (induction us arbitrary: s d)
  case Nil
  then show ?case by simp
next
  case (Cons u us)
  from handle_message_keeps_record [OF Cons.prems, of u] obtain d'
    where "cached_stats (handle_message s u) = PDict d'"
      and "map_of d' (KInt user_id) = Some (user_record f l c)" by blast
  from Cons.IH [OF this] show ?case by simp
qed

text \<open>
  Within one process the policy of line 168 holds. When the user is absent from the stats
  mapping, or present with an empty \<^verbatim>\<open>scores\<close> sequence, the step of lines 170-177
  stores the record with first name, last name and \<^verbatim>\<open>scores = [c1]\<close> under the user's id.
  A second step for the same user, with any names and any count \<open>c2\<close>, leaves the mapping
  as it is; and whatever messages are handled afterwards, of this user or of others, the
  cache still holds that record.
\<close>

lemma first_attempt_only_in_process:
  "(map_of d (KInt user_id) = None
     \<or> (\<exists>user_data scores. map_of d (KInt user_id) = Some user_data
           \<and> py_getitem_str user_data ''scores'' = Inr scores \<and> py_len scores = Inr 0)
    \<longrightarrow> record_first_attempt (PDict d) user_id f l c1 =
          Inr (PDict (AList.update (KInt user_id) (user_record f l c1) d), []))
   \<and> record_first_attempt (PDict (AList.update (KInt user_id) (user_record f l c1) d))
         user_id f2 l2 c2 =
       Inr (PDict (AList.update (KInt user_id) (user_record f l c1) d),
            [LogRepeatAttempt user_id])
   \<and> py_getitem_str (user_record f l c1) ''scores'' = Inr (PList [PInt (int c1)])
   \<and> (cached_stats s = PDict (AList.update (KInt user_id) (user_record f l c1) d)
        \<longrightarrow> (\<exists>d'. cached_stats (foldl handle_message s us) = PDict d'
               \<and> map_of d' (KInt user_id) = Some (user_record f l c1)))"
proof (intro conjI impI)
  assume "map_of d (KInt user_id) = None
     \<or> (\<exists>user_data scores. map_of d (KInt user_id) = Some user_data
           \<and> py_getitem_str user_data ''scores'' = Inr scores \<and> py_len scores = Inr 0)"
  then have "first_attempt (PDict d) user_id = Inr True"
    by (auto simp: first_attempt_absent first_attempt_present)
  then show "record_first_attempt (PDict d) user_id f l c1 =
      Inr (PDict (AList.update (KInt user_id) (user_record f l c1) d), [])"
    by (rule record_first_attempt_set)
next
  have "map_of (AList.update (KInt user_id) (user_record f l c1) d) (KInt user_id)
      = Some (user_record f l c1)"
    by (simp add: update_conv')
  then show "record_first_attempt (PDict (AList.update (KInt user_id) (user_record f l c1) d))
         user_id f2 l2 c2 =
       Inr (PDict (AList.update (KInt user_id) (user_record f l c1) d),
            [LogRepeatAttempt user_id])"
    by (intro record_first_attempt_repeat first_attempt_user_record)
next
  show "py_getitem_str (user_record f l c1) ''scores'' = Inr (PList [PInt (int c1)])"
    by (simp add: user_record_def)
next
  assume "cached_stats s = PDict (AList.update (KInt user_id) (user_record f l c1) d)"
  moreover have "map_of (AList.update (KInt user_id) (user_record f l c1) d) (KInt user_id)
      = Some (user_record f l c1)"
    by (simp add: update_conv')
  ultimately show "\<exists>d'. cached_stats (foldl handle_message s us) = PDict d'
               \<and> map_of d' (KInt user_id) = Some (user_record f l c1)"
    by (rule foldl_handle_message_keeps_record)
qed

section \<open>String keys on disk, integer keys in memory\<close>

lemma set_update_subset: "set (AList.update k v d) \<subseteq> insert (k, v) (set d)"
  by (induction d) auto

lemma set_foldl_update_subset:
  "set (foldl (\<lambda>d (k, v). AList.update k v d) d ps) \<subseteq> set d \<union> set ps"
proof (induction ps arbitrary: d)
  case Nil
  then show ?case by simp
next
  case (Cons p ps)
  obtain k v where p: "p = (k, v)" by (cases p)
  have "set (foldl (\<lambda>d (k, v). AList.update k v d) (AList.update k v d) ps)
      \<subseteq> set (AList.update k v d) \<union> set ps"
    by (rule Cons.IH)
  also have "\<dots> \<subseteq> insert (k, v) (set d) \<union> set ps"
    using set_update_subset [of k v d] by blast
  finally show ?case by (auto simp: p)
qed

lemma set_dict_of_pairs_subset: "set (dict_of_pairs ps) \<subseteq> set ps"
  using set_foldl_update_subset [of "[]" ps] by (simp add: dict_of_pairs_def)

text \<open>Every item of a dict that \<^verbatim>\<open>json.load\<close> returns has a string key and a loaded value.\<close>

lemma json_load_items:
  assumes "json_load j = PDict d" and "(k, v) \<in> set d"
  shows "\<exists>name j'. k = KStr name \<and> v = json_load j'"
proof (cases j)
  case (JObj ms)
  with assms have "(k, v) \<in> set (dict_of_pairs (map (\<lambda>(k, v). (KStr k, json_load v)) ms))"
    by simp
  then have "(k, v) \<in> set (map (\<lambda>(k, v). (KStr k, json_load v)) ms)"
    using set_dict_of_pairs_subset [of "map (\<lambda>(k, v). (KStr k, json_load v)) ms"] by blast
  then show ?thesis by auto
qed (use assms in simp_all)

lemma json_load_no_int_key:
  assumes "json_load j = PDict d"
  shows "map_of d (KInt n) = None"
proof (rule ccontr)
  assume "map_of d (KInt n) \<noteq> None"
  then obtain v where "map_of d (KInt n) = Some v" by blast
  then have "(KInt n, v) \<in> set d" by (rule map_of_SomeD)
  from json_load_items [OF assms this] show False by simp
qed

lemma load_stats_no_int_key:
  assumes "cached_stats s = PNone" and "load_stats s = Inr (PDict d, s')"
  shows "map_of d (KInt n) = None"
proof (cases "stats_file s")
  case Missing
  with assms show ?thesis by (simp add: load_stats_def)
next
  case NotText
  with assms show ?thesis by (simp add: load_stats_def)
next
  case Undecodable
  with assms show ?thesis by (simp add: load_stats_def)
next
  case (Document j)
  with assms have get: "py_get (json_load j) ''users'' (PDict []) = Inr (PDict d)"
    by (auto simp: load_stats_def bind_err_eq_Inr)
  then obtain top where top: "json_load j = PDict top"
    by (cases "json_load j") simp_all
  show ?thesis
  proof (cases "map_of top (KStr ''users'')")
    case None
    with get top show ?thesis by auto
  next
    case (Some v)
    with get top have v: "v = PDict d" by simp
    from Some have "(KStr ''users'', v) \<in> set top" by (rule map_of_SomeD)
    from json_load_items [OF top this] obtain j' where "v = json_load j'" by blast
    with v show ?thesis by (simp add: json_load_no_int_key)
  qed
qed

lemma update_absent: "map_of d k = None \<Longrightarrow> AList.update k v d = d @ [(k, v)]"
  by (induction d) (auto split: if_splits)

text \<open>
  After \<^verbatim>\<open>submit_answers\<close> the cached stats are the old ones, or the loaded ones, or the
  loaded ones after the step of lines 170-177.
\<close>

lemma submit_answers_cached_cases:
  "cached_stats (fst (submit_answers s u)) = cached_stats s
   \<or> (\<exists>s1 stats s2. cached_stats s1 = cached_stats s \<and> stats_file s1 = stats_file s
         \<and> load_stats s1 = Inr (stats, s2)
         \<and> (cached_stats (fst (submit_answers s u)) = stats
              \<or> (\<exists>c msgs. record_first_attempt stats (from_user_id u) (from_first_name u)
                     (from_last_name u) c
                   = Inr (cached_stats (fst (submit_answers s u)), msgs))))"
proof (cases "length (py_strip (message_text u)) = length (ANSWER_KEY s)")
  case False
  then show ?thesis by (simp add: submit_answers_def Let_def)
next
  case True
  define s0 where "s0 = s\<lparr>logged := logged s @ [LogSubmitCalled]\<rparr>"
  obtain c inc where sc: "score_loop (ANSWER_KEY s) 0 (py_strip (message_text u)) (0, []) = (c, inc)"
    by (cases "score_loop (ANSWER_KEY s) 0 (py_strip (message_text u)) (0, [])")
  show ?thesis
  proof (cases "calculate_percentage (int c) (int (length (ANSWER_KEY s)))")
    case (Inl err)
    with True sc show ?thesis by (simp add: submit_answers_def Let_def)
  next
    case (Inr pct)
    define s1 where "s1 = s0\<lparr>outbox := outbox s0 @
        [ResultReply c (length (ANSWER_KEY s)) pct inc]\<rparr>"
    have s1: "cached_stats s1 = cached_stats s" "stats_file s1 = stats_file s"
      by (simp_all add: s1_def s0_def)
    show ?thesis
    proof (cases "load_stats s1")
      case (Inl err)
      with True sc Inr s1 show ?thesis
        by (simp add: submit_answers_def Let_def s1_def s0_def)
    next
      case ld: (Inr r)
      obtain stats s2 where r: "r = (stats, s2)" by (cases r)
      have cs2: "cached_stats s2 = stats"
        using load_stats_frame(1) [OF ld [unfolded r]] .
      have "cached_stats (fst (submit_answers s u)) = stats
          \<or> (\<exists>c msgs. record_first_attempt stats (from_user_id u) (from_first_name u)
                 (from_last_name u) c = Inr (cached_stats (fst (submit_answers s u)), msgs))"
      proof (cases "record_first_attempt stats (from_user_id u) (from_first_name u)
                      (from_last_name u) c")
        case (Inl err)
        with True sc Inr ld r cs2 show ?thesis
          by (simp add: submit_answers_def Let_def s1_def s0_def)
      next
        case rec: (Inr r')
        obtain stats' msgs where r': "r' = (stats', msgs)" by (cases r')
        define s3 where "s3 = save_stats (s2\<lparr>cached_stats := stats',
            logged := logged s2 @ msgs\<rparr>) stats'"
        have cs3: "cached_stats s3 = stats'"
          by (simp add: s3_def save_stats_frame)
        have "cached_stats (fst (submit_answers s u)) = stats'"
        proof (cases "save_stats_to_excel s3 stats'")
          case (Inl err)
          with True sc Inr ld r rec r' cs3 show ?thesis
            by (simp add: submit_answers_def Let_def s1_def s0_def s3_def)
        next
          case ex: (Inr s4)
          from save_stats_to_excel_frame(1) [OF ex] cs3
          have "cached_stats s4 = stats'" by simp
          with True sc Inr ld r rec r' ex show ?thesis
            by (simp add: submit_answers_def Let_def s1_def s0_def s3_def)
        qed
        with rec r' show ?thesis by blast
      qed
      with s1 ld r show ?thesis by blast
    qed
  qed
qed

text \<open>
  Integer keys come from line 171 alone: the integer keys of the cache after a message are
  those before it and the sender's id.
\<close>

lemma int_keys_update:
  "set (int_keys (PDict (AList.update (KInt n) v d))) \<subseteq> insert n (set (int_keys (PDict d)))"
  by (induction d) (auto split: key.splits)

lemma int_keys_no_int_key:
  "(\<And>n. map_of d (KInt n) = None) \<Longrightarrow> int_keys (PDict d) = []"
proof (induction d)
  case Nil
  then show ?case by simp
next
  case (Cons item d)
  obtain k v where item: "item = (k, v)" by (cases item)
  have k: "\<exists>name. k = KStr name"
    using Cons.prems [of "case k of KInt n \<Rightarrow> n | _ \<Rightarrow> 0"] item by (cases k) simp_all
  have "map_of d (KInt n) = None" for n
    using Cons.prems [of n] item k by auto
  then have "int_keys (PDict d) = []" by (rule Cons.IH)
  with item k show ?case by auto
qed

lemma int_keys_load_stats:
  assumes "load_stats s = Inr (stats, s')"
  shows "set (int_keys stats) \<subseteq> set (int_keys (cached_stats s))"
proof (cases "cached_stats s = PNone")
  case False
  with assms show ?thesis by (auto simp: load_stats_cached)
next
  case True
  show ?thesis
  proof (cases stats)
    case (PDict d)
    with assms True have "map_of d (KInt n) = None" for n
      using load_stats_no_int_key by blast
    then have "int_keys (PDict d) = []" by (rule int_keys_no_int_key)
    then have "set (int_keys stats) = {}" unfolding PDict by (simp only: list.set)
    then show ?thesis by (simp only: empty_subsetI)
  qed simp_all
qed

lemma int_keys_record_first_attempt:
  assumes "record_first_attempt stats user_id f l c = Inr (stats', msgs)"
  shows "set (int_keys stats') \<subseteq> insert user_id (set (int_keys stats))"
proof -
  from assms consider "stats' = stats"
    | "py_setitem_int stats user_id (user_record f l c) = Inr stats'"
    by (auto simp: record_first_attempt_def bind_err_eq_Inr split: if_splits)
  then show ?thesis
  proof cases
    case 1
    then show ?thesis by auto
  next
    case 2
    show ?thesis
    proof (cases stats)
      case (PDict d)
      with 2 have "stats' = PDict (AList.update (KInt user_id) (user_record f l c) d)"
        by simp
      with PDict show ?thesis using int_keys_update [of user_id "user_record f l c" d] by simp
    next
      case (PList xs)
      with 2 obtain ys where "stats' = PList ys" by (auto simp: bind_err_eq_Inr)
      then show ?thesis by simp
    qed (use 2 in simp_all)
  qed
qed

lemma int_keys_handle_message:
  "set (int_keys (cached_stats (handle_message s u)))
     \<subseteq> insert (from_user_id u) (set (int_keys (cached_stats s)))"
proof -
  have sub: "set (int_keys (cached_stats (fst (submit_answers s u))))
     \<subseteq> insert (from_user_id u) (set (int_keys (cached_stats s)))"
    using submit_answers_cached_cases [of s u]
  proof (elim disjE exE conjE)
    assume "cached_stats (fst (submit_answers s u)) = cached_stats s"
    then show ?thesis by auto
  next
    fix s1 stats s2
    assume "cached_stats s1 = cached_stats s" "load_stats s1 = Inr (stats, s2)"
      and "cached_stats (fst (submit_answers s u)) = stats"
    then show ?thesis using int_keys_load_stats by fastforce
  next
    fix s1 stats s2 c msgs
    assume s1: "cached_stats s1 = cached_stats s" "load_stats s1 = Inr (stats, s2)"
      and rec: "record_first_attempt stats (from_user_id u) (from_first_name u)
            (from_last_name u) c = Inr (cached_stats (fst (submit_answers s u)), msgs)"
    from rec have "set (int_keys (cached_stats (fst (submit_answers s u))))
        \<subseteq> insert (from_user_id u) (set (int_keys stats))"
      by (rule int_keys_record_first_attempt)
    moreover have "set (int_keys stats) \<subseteq> set (int_keys (cached_stats s))"
      using int_keys_load_stats [OF s1(2)] s1(1) by simp
    ultimately show ?thesis by blast
  qed
  show ?thesis
  proof (cases "user_states s (from_user_id u) = Some answers_submitted")
    case True
    then show ?thesis by (auto simp: handle_message_def)
  next
    case False
    obtain s' err where r: "submit_answers s u = (s', err)" by (cases "submit_answers s u")
    with sub False show ?thesis by (cases err) (simp_all add: handle_message_def)
  qed
qed

lemma int_keys_foldl_handle_message:
  "set (int_keys (cached_stats (foldl handle_message s us)))
     \<subseteq> set (int_keys (cached_stats s)) \<union> from_user_id ` set us"
proof (induction us arbitrary: s)
  case Nil
  then show ?case by simp
next
  case (Cons u us)
  have "set (int_keys (cached_stats (foldl handle_message (handle_message s u) us)))
      \<subseteq> set (int_keys (cached_stats (handle_message s u))) \<union> from_user_id ` set us"
    by (rule Cons.IH)
  with int_keys_handle_message [of s u] show ?case by auto
qed

text \<open>
  A run across a restart. User 7 submits \<^verbatim>\<open>abd\<close> and scores 2; the file then holds the
  record under the name \<^verbatim>\<open>"7"\<close>. After a restart the same user submits \<^verbatim>\<open>abc\<close>: the
  loaded mapping has the key \<^verbatim>\<open>"7"\<close> only, so the record with score 3 is stored under the
  integer 7, the export has two rows for the user, and the file is written with two members
  named \<^verbatim>\<open>"7"\<close>, of which the next load keeps the last.
\<close>

lemma example_after_restart:
  "handle_message (restart (handle_message example_bot (example_update 7 ''abd'')))
     (example_update 7 ''abc'') =
     \<lparr>ANSWER_KEY = [''a'', ''b'', ''c''],
      stats_file = Document (JObj [(''users'', JObj
        [(''7'', JObj [(''first_name'', JStr ''Ann''), (''last_name'', JNull),
                       (''scores'', JArr [JInt 2])]),
         (''7'', JObj [(''first_name'', JStr ''Ann''), (''last_name'', JNull),
                       (''scores'', JArr [JInt 3])])])]),
      stats_writable = True,
      excel_file = Some [(PStr ''Ann'', PNone, 2), (PStr ''Ann'', PNone, 3)],
      excel_writable = True,
      test_images = [False, False],
      cached_stats = PDict [(KStr ''7'', user_record ''Ann'' None 2),
                            (KInt 7, user_record ''Ann'' None 3)],
      user_states = [7 \<mapsto> answers_submitted],
      outbox = [ResultReply 2 3 67 [(3, ''d'')], ResultReply 3 3 100 []],
      logged = [LogSubmitCalled, LogSubmitCalled]\<rparr>"
  by (simp add: example_first_submission restart_def)
     (simp add: eval_handlers eval_answers calculate_percentage_def int_truediv_def
        to_double_def floor_log2_def bit_length.simps round_half_even_def)

lemma example_reload:
  "json_load (JObj [(''users'', JObj
        [(''7'', JObj [(''first_name'', JStr ''Ann''), (''last_name'', JNull),
                       (''scores'', JArr [JInt 2])]),
         (''7'', JObj [(''first_name'', JStr ''Ann''), (''last_name'', JNull),
                       (''scores'', JArr [JInt 3])])])]) =
     PDict [(KStr ''users'', PDict [(KStr ''7'', user_record ''Ann'' None 3)])]"
  by (simp add: dict_of_pairs_def user_record_def)

text \<open>
  Claim C1 states the first-attempt-only policy, which line 168 announces: once a user
  has a record, every later submission with any count \<open>c2\<close> leaves the stored record and
  its scores \<^verbatim>\<open>[c1]\<close> unchanged. Across a restart the code does not keep it. The bot that
  has stored the score 2 of user 7 is restarted and receives \<^verbatim>\<open>abc\<close> from the same user:
  the score 3 is stored in the cache beside the loaded record, is written to the file under
  the same name \<^verbatim>\<open>"7"\<close>, and is the score that the next start loads for that user.
\<close>

theorem first_attempt_replaced_after_restart:
  "cached_stats (handle_message example_bot (example_update 7 ''abd'')) =
     PDict [(KInt 7, user_record ''Ann'' None 2)]
   \<and> load_stats (restart (handle_message example_bot (example_update 7 ''abd''))) =
       Inr (PDict [(KStr ''7'', user_record ''Ann'' None 2)],
            (restart (handle_message example_bot (example_update 7 ''abd'')))
              \<lparr>cached_stats := PDict [(KStr ''7'', user_record ''Ann'' None 2)]\<rparr>)
   \<and> cached_stats (handle_message (restart (handle_message example_bot (example_update 7 ''abd'')))
        (example_update 7 ''abc'')) =
       PDict [(KStr ''7'', user_record ''Ann'' None 2), (KInt 7, user_record ''Ann'' None 3)]
   \<and> load_stats (restart (handle_message
        (restart (handle_message example_bot (example_update 7 ''abd'')))
        (example_update 7 ''abc''))) =
       Inr (PDict [(KStr ''7'', user_record ''Ann'' None 3)],
            (restart (handle_message
               (restart (handle_message example_bot (example_update 7 ''abd'')))
               (example_update 7 ''abc'')))
              \<lparr>cached_stats := PDict [(KStr ''7'', user_record ''Ann'' None 3)]\<rparr>)"
proof (intro conjI)
  show "cached_stats (handle_message example_bot (example_update 7 ''abd'')) =
     PDict [(KInt 7, user_record ''Ann'' None 2)]"
    by (simp add: example_first_submission)
next
  show "load_stats (restart (handle_message example_bot (example_update 7 ''abd''))) =
       Inr (PDict [(KStr ''7'', user_record ''Ann'' None 2)],
            (restart (handle_message example_bot (example_update 7 ''abd'')))
              \<lparr>cached_stats := PDict [(KStr ''7'', user_record ''Ann'' None 2)]\<rparr>)"
    by (simp add: example_first_submission restart_def)
       (simp add: load_stats_def dict_of_pairs_def user_record_def)
next
  show "cached_stats (handle_message (restart (handle_message example_bot (example_update 7 ''abd'')))
        (example_update 7 ''abc'')) =
       PDict [(KStr ''7'', user_record ''Ann'' None 2), (KInt 7, user_record ''Ann'' None 3)]"
    by (simp add: example_after_restart)
next
  show "load_stats (restart (handle_message
        (restart (handle_message example_bot (example_update 7 ''abd'')))
        (example_update 7 ''abc''))) =
       Inr (PDict [(KStr ''7'', user_record ''Ann'' None 3)],
            (restart (handle_message
               (restart (handle_message example_bot (example_update 7 ''abd'')))
               (example_update 7 ''abc'')))
              \<lparr>cached_stats := PDict [(KStr ''7'', user_record ''Ann'' None 3)]\<rparr>)"
    by (simp add: example_after_restart)
       (simp add: restart_def load_stats_def dict_of_pairs_def user_record_def)
qed

text \<open>
  Claim C10: a mapping freshly loaded from the stats file has no integer key, so for
  every user the check of line 170 finds the user absent and the record is stored (appended
  under the integer id), whether or not the file held a record under the string form of
  the id. The check finds a record only under an integer key, which only line 171 of the
  running process creates; \<^verbatim>\<open>json.dump\<close> writes that key as the string \<^verbatim>\<open>str(user_id)\<close>
  and \<^verbatim>\<open>json.load\<close> returns string keys.
\<close>

theorem loaded_stats_never_match:
  "(cached_stats s = PNone \<and> load_stats s = Inr (PDict d, s') \<longrightarrow>
      map_of d (KInt user_id) = None
      \<and> first_attempt (PDict d) user_id = Inr True
      \<and> record_first_attempt (PDict d) user_id f l c =
          Inr (PDict (d @ [(KInt user_id, user_record f l c)]), []))
   \<and> (first_attempt (PDict d0) user_id = Inr False \<longrightarrow> map_of d0 (KInt user_id) \<noteq> None)
   \<and> json_dump (PDict [(KInt user_id, r)]) = JObj [(py_str_int user_id, json_dump r)]
   \<and> json_load (JObj [(name, j)]) = PDict [(KStr name, json_load j)]
   \<and> (cached_stats s0 = PNone \<longrightarrow>
        set (int_keys (cached_stats (foldl handle_message s0 us))) \<subseteq> from_user_id ` set us)"
proof (intro conjI impI)
  assume "cached_stats s0 = PNone"
  then show "set (int_keys (cached_stats (foldl handle_message s0 us))) \<subseteq> from_user_id ` set us"
    using int_keys_foldl_handle_message [of s0 us] by simp
next
  assume a: "cached_stats s = PNone \<and> load_stats s = Inr (PDict d, s')"
  then show none: "map_of d (KInt user_id) = None"
    using load_stats_no_int_key by blast
  then show first: "first_attempt (PDict d) user_id = Inr True"
    by (rule first_attempt_absent)
  then show "record_first_attempt (PDict d) user_id f l c =
      Inr (PDict (d @ [(KInt user_id, user_record f l c)]), [])"
    using none by (simp add: record_first_attempt_set update_absent)
next
  assume "first_attempt (PDict d0) user_id = Inr False"
  then show "map_of d0 (KInt user_id) \<noteq> None"
    using first_attempt_absent [of d0 user_id] by auto
next
  show "json_dump (PDict [(KInt user_id, r)]) = JObj [(py_str_int user_id, json_dump r)]"
    by simp
next
  show "json_load (JObj [(name, j)]) = PDict [(KStr name, json_load j)]"
    by (simp add: dict_of_pairs_def)
qed

theorem loaded_stats_never_match_witness:
  "cached_stats (restart (handle_message example_bot (example_update 7 ''abd''))) = PNone
   \<and> load_stats (restart (handle_message example_bot (example_update 7 ''abd''))) =
       Inr (PDict [(KStr ''7'', user_record ''Ann'' None 2)],
            (restart (handle_message example_bot (example_update 7 ''abd'')))
              \<lparr>cached_stats := PDict [(KStr ''7'', user_record ''Ann'' None 2)]\<rparr>)
   \<and> map_of [(KStr ''7'', user_record ''Ann'' None 2)] (KInt 7) = None
   \<and> record_first_attempt (PDict [(KStr ''7'', user_record ''Ann'' None 2)]) 7 ''Ann'' None 3 =
       Inr (PDict [(KStr ''7'', user_record ''Ann'' None 2),
                   (KInt 7, user_record ''Ann'' None 3)], [])
   \<and> first_attempt (PDict [(KInt 7, user_record ''Ann'' None 2)]) 7 = Inr False
   \<and> map_of [(KInt 7, user_record ''Ann'' None 2)] (KInt 7) \<noteq> None
   \<and> cached_stats example_bot = PNone
   \<and> set (int_keys (cached_stats (foldl handle_message example_bot
              [example_update 8 ''ab'', example_update 7 ''abd''])))
       \<subseteq> from_user_id ` set [example_update 8 ''ab'', example_update 7 ''abd'']"
proof -
  let ?s = "restart (handle_message example_bot (example_update 7 ''abd''))"
  let ?d = "[(KStr ''7'', user_record ''Ann'' None 2)]"
  have loaded: "cached_stats ?s = PNone
      \<and> load_stats ?s = Inr (PDict ?d, ?s\<lparr>cached_stats := PDict ?d\<rparr>)"
    by (simp add: example_first_submission restart_def)
       (simp add: load_stats_def dict_of_pairs_def user_record_def)
  have repeat: "first_attempt (PDict [(KInt 7, user_record ''Ann'' None 2)]) 7 = Inr False"
    by (simp add: first_attempt_user_record)
  have fresh: "cached_stats example_bot = PNone"
    by (simp add: example_bot_def)
  from loaded_stats_never_match
    [where s = ?s and d = ?d and s' = "?s\<lparr>cached_stats := PDict ?d\<rparr>"
       and user_id = 7 and f = "''Ann''" and l = None and c = 3
       and ?d0.0 = "[(KInt 7, user_record ''Ann'' None 2)]"
       and ?s0.0 = example_bot
       and us = "[example_update 8 ''ab'', example_update 7 ''abd'']"]
    loaded repeat fresh
  show ?thesis by simp
qed

section \<open>The leaderboard\<close>

lemma map_err_eq_Inr:
  "map_err f xs = Inr ys \<longleftrightarrow> list_all2 (\<lambda>x y. f x = Inr y) xs ys"
proof (induction xs arbitrary: ys)
  case Nil
  then show ?case by auto
next
  case (Cons x xs)
  show ?case
  proof (cases ys)
    case Nil
    then show ?thesis by (auto simp: bind_err_eq_Inr)
  next
    case (Cons y ys')
    then show ?thesis by (auto simp: bind_err_eq_Inr Cons.IH)
  qed
qed

lemma map_err_total:
  "(\<And>x. x \<in> set xs \<Longrightarrow> \<exists>y. f x = Inr y) \<Longrightarrow> \<exists>ys. map_err f xs = Inr ys"
proof (induction xs)
  case Nil
  then show ?case by simp
next
  case (Cons x xs)
  then obtain y ys where "f x = Inr y" "map_err f xs = Inr ys"
    by (metis list.set_intros(1,2))
  then show ?case by simp
qed

text \<open>
  The sort is descending in the key, keeps the items, and leaves items of equal key in
  their order.
\<close>

lemma sorted_reverse_descending:
  "sorted_wrt (\<lambda>a b. fst b \<le> fst a) (sorted_reverse xs)"
proof -
  have "sorted (map fst (sort_key fst (rev xs)))" by simp
  then have "sorted_wrt (\<lambda>a b. fst a \<le> fst b) (sort_key fst (rev xs))"
    by (simp add: sorted_wrt_map)
  then show ?thesis by (simp add: sorted_reverse_def sorted_wrt_rev)
qed

lemma mset_sorted_reverse: "mset (sorted_reverse xs) = mset xs"
  by (simp add: sorted_reverse_def)

lemma set_sorted_reverse: "set (sorted_reverse xs) = set xs"
  by (simp add: sorted_reverse_def)

lemma sorted_reverse_stable:
  "filter (\<lambda>x. fst x = k) (sorted_reverse xs) = filter (\<lambda>x. fst x = k) xs"
proof -
  have "filter (\<lambda>x. fst x = k) (sort_key fst (rev xs)) = filter (\<lambda>x. fst x = k) (rev xs)"
    by (rule sort_key_stable)
  then have "rev (filter (\<lambda>x. fst x = k) (sort_key fst (rev xs)))
      = rev (filter (\<lambda>x. fst x = k) (rev xs))" by simp
  then show ?thesis by (simp add: sorted_reverse_def rev_filter)
qed

text \<open>A line shows the key of its item and the percentage of that key.\<close>

lemma stats_line_of_key:
  assumes "stats_key item = Inr k" and "stats_line_of n item = Inr line"
  shows "line_total line = k"
    and "calculate_percentage k (int n) = Inr (line_percentage line)"
  using assms
  by (auto simp: stats_key_def stats_line_of_def Let_def bind_err_eq_Inr
      line_total_def line_percentage_def)

lemma render_lines:
  assumes "render n stats = Inr lines"
  obtains items keys where "py_items stats = Inr items"
    and "list_all2 (\<lambda>x k. stats_key x = Inr k) items keys"
    and "list_all2 (\<lambda>x line. stats_line_of n (snd x) = Inr line)
           (sorted_reverse (zip keys items)) lines"
proof -
  from assms obtain items keys where items: "py_items stats = Inr items"
    and keys: "map_err stats_key items = Inr keys"
    and lines: "map_err (stats_line_of n) (map snd (sorted_reverse (zip keys items))) = Inr lines"
    by (auto simp: render_def bind_err_eq_Inr)
  from lines have "list_all2 (\<lambda>x line. stats_line_of n (snd x) = Inr line)
           (sorted_reverse (zip keys items)) lines"
    by (simp add: map_err_eq_Inr list_all2_map1)
  with items keys that show ?thesis by (simp add: map_err_eq_Inr)
qed

lemma zip_keys:
  assumes "list_all2 (\<lambda>x k. stats_key x = Inr k) items keys" and "p \<in> set (zip keys items)"
  shows "stats_key (snd p) = Inr (fst p)"
proof -
  from assms(2) obtain i where "i < length (zip keys items)" "p = zip keys items ! i"
    by (auto simp: in_set_conv_nth)
  with assms(1) show ?thesis by (simp add: list_all2_conv_all_nth)
qed

lemma render_descending:
  assumes "render n stats = Inr lines"
  shows "sorted_wrt (\<lambda>a b. line_total b \<le> line_total a) lines"
    and "list_all (\<lambda>line. calculate_percentage (line_total line) (int n)
                          = Inr (line_percentage line)) lines"
proof -
  from assms obtain items keys where items: "py_items stats = Inr items"
    and keys: "list_all2 (\<lambda>x k. stats_key x = Inr k) items keys"
    and lines: "list_all2 (\<lambda>x line. stats_line_of n (snd x) = Inr line)
           (sorted_reverse (zip keys items)) lines"
    by (rule render_lines)
  let ?sorted = "sorted_reverse (zip keys items)"
  have len: "length lines = length ?sorted"
    using lines by (simp add: list_all2_lengthD)
  have nth: "line_total (lines ! i) = fst (?sorted ! i)
      \<and> calculate_percentage (line_total (lines ! i)) (int n) = Inr (line_percentage (lines ! i))"
    if "i < length ?sorted" for i
  proof -
    from that have "?sorted ! i \<in> set (zip keys items)"
      using set_sorted_reverse [of "zip keys items"] nth_mem by blast
    then have "stats_key (snd (?sorted ! i)) = Inr (fst (?sorted ! i))"
      by (rule zip_keys [OF keys])
    moreover from lines that have "stats_line_of n (snd (?sorted ! i)) = Inr (lines ! i)"
      by (simp add: list_all2_conv_all_nth)
    ultimately show ?thesis using stats_line_of_key by metis
  qed
  then have "map line_total lines = map fst ?sorted"
    using len by (simp add: list_eq_iff_nth_eq)
  moreover have "sorted_wrt (\<lambda>a b. b \<le> a) (map fst ?sorted)"
    using sorted_reverse_descending [of "zip keys items"] by (simp add: sorted_wrt_map)
  ultimately have "sorted_wrt (\<lambda>a b. b \<le> a) (map line_total lines)" by simp
  then show "sorted_wrt (\<lambda>a b. line_total b \<le> line_total a) lines"
    by (simp add: sorted_wrt_map)
  show "list_all (\<lambda>line. calculate_percentage (line_total line) (int n)
                          = Inr (line_percentage line)) lines"
    unfolding list_all_length using nth len by metis
qed

lemma render_permutation:
  assumes "render n stats = Inr lines"
  shows "\<exists>items. py_items stats = Inr items
           \<and> mset (map (stats_line_of n) items) = mset (map Inr lines)"
proof -
  from assms obtain items keys where items: "py_items stats = Inr items"
    and keys: "list_all2 (\<lambda>x k. stats_key x = Inr k) items keys"
    and lines: "list_all2 (\<lambda>x line. stats_line_of n (snd x) = Inr line)
           (sorted_reverse (zip keys items)) lines"
    by (rule render_lines)
  let ?sorted = "sorted_reverse (zip keys items)"
  from keys have "length keys = length items" by (simp add: list_all2_lengthD)
  then have "map snd (zip keys items) = items" by simp
  then have m: "mset (map snd ?sorted) = mset items"
    using mset_sorted_reverse [of "zip keys items"] by (metis mset_map)
  from lines have eq: "map (stats_line_of n) (map snd ?sorted) = map Inr lines"
    by (simp add: list_all2_conv_all_nth list_eq_iff_nth_eq)
  have "mset (map (stats_line_of n) items) = image_mset (stats_line_of n) (mset items)"
    by simp
  also have "\<dots> = image_mset (stats_line_of n) (mset (map snd ?sorted))"
    by (simp only: m)
  also have "\<dots> = mset (map (stats_line_of n) (map snd ?sorted))"
    by (simp only: mset_map)
  also have "\<dots> = mset (map Inr lines)"
    by (simp only: eq)
  finally have "mset (map (stats_line_of n) items) = mset (map Inr lines)" .
  with items show ?thesis by blast
qed

text \<open>
  For records as line 171 stores them, with scores up to the number of questions, the
  leaderboard is rendered: nothing raises.
\<close>

lemma stats_key_user_record:
  "snd item = user_record f l c \<Longrightarrow> stats_key item = Inr (int c)"
  by (simp add: stats_key_def user_record_def)

lemma stats_line_of_user_record:
  assumes "snd item = user_record f l c" and "c \<le> n"
  shows "\<exists>line. stats_line_of n item = Inr line"
proof (cases "n = 0")
  case True
  with assms show ?thesis
    by (simp add: stats_line_of_def user_record_def calculate_percentage_def)
next
  case False
  with assms(2) obtain p where "calculate_percentage (int c) (int n) = Inr p"
    using calculate_percentage_total [of "int n" "int c"] by auto
  with assms(1) show ?thesis by (simp add: stats_line_of_def user_record_def)
qed

lemma render_total:
  assumes "\<And>item. item \<in> set d \<Longrightarrow> \<exists>f l c. snd item = user_record f l c \<and> c \<le> n"
  shows "\<exists>lines. render n (PDict d) = Inr lines"
proof -
  have "\<exists>keys. map_err stats_key d = Inr keys"
    using assms by (intro map_err_total) (metis stats_key_user_record)
  then obtain keys where keys: "map_err stats_key d = Inr keys" by blast
  have "\<exists>lines. map_err (stats_line_of n) (map snd (sorted_reverse (zip keys d))) = Inr lines"
  proof (rule map_err_total)
    fix item
    assume "item \<in> set (map snd (sorted_reverse (zip keys d)))"
    then have "item \<in> snd ` set (zip keys d)" by (simp add: set_sorted_reverse)
    then have "item \<in> set d" by (auto dest: set_zip_rightD)
    from assms [OF this] show "\<exists>line. stats_line_of n item = Inr line"
      using stats_line_of_user_record by blast
  qed
  with keys show ?thesis by (simp add: render_def)
qed

lemma show_stats_sends_render:
  assumes "show_stats s = (s', None)"
  shows "\<exists>lines. render (length (ANSWER_KEY s)) (cached_stats s') = Inr lines
           \<and> outbox s' = outbox s @ [StatsReply lines]"
proof -
  define s0 where "s0 = s\<lparr>logged := logged s @ [LogShowStatsCalled]\<rparr>"
  from assms obtain stats s1 where ld: "load_stats s0 = Inr (stats, s1)"
    by (cases "load_stats s0") (auto simp: show_stats_def Let_def s0_def)
  from load_stats_frame(2) [OF ld] obtain msgs
    where "s1 = s0\<lparr>cached_stats := stats, logged := logged s0 @ msgs\<rparr>" by blast
  then have s1: "cached_stats s1 = stats" "ANSWER_KEY s1 = ANSWER_KEY s" "outbox s1 = outbox s"
    by (simp_all add: s0_def)
  from assms ld obtain lines where "render (length (ANSWER_KEY s1)) stats = Inr lines"
    and "s' = s1\<lparr>outbox := outbox s1 @ [StatsReply lines]\<rparr>"
    by (cases "render (length (ANSWER_KEY s1)) stats")
       (auto simp: show_stats_def Let_def s0_def)
  with s1 show ?thesis by simp
qed

lemma example_leaderboard:
  "render 10 (PDict [(KInt 1, user_record ''A'' None 5), (KInt 2, user_record ''B'' None 10),
                     (KInt 3, user_record ''C'' None 3)]) =
     Inr [(PStr ''B'', PNone, 10, 100), (PStr ''A'', PNone, 5, 50), (PStr ''C'', PNone, 3, 30)]"
  by (simp add: render_def stats_key_def stats_line_of_def user_record_def sorted_reverse_def
      calculate_percentage_def int_truediv_def to_double_def floor_log2_def bit_length.simps
      round_half_even_def Let_def)

lemma show_stats_cached:
  assumes "cached_stats s = PDict d"
    and "render (length (ANSWER_KEY s)) (PDict d) = Inr sent"
  shows "show_stats s =
     (s\<lparr>logged := logged s @ [LogShowStatsCalled], outbox := outbox s @ [StatsReply sent]\<rparr>, None)"
  using assms by (simp add: show_stats_def load_stats_def Let_def)

lemma show_stats_total:
  assumes "cached_stats s = PDict d"
    and "list_all (\<lambda>item. \<exists>f l c. snd item = user_record f l c \<and> c \<le> length (ANSWER_KEY s)) d"
  shows "\<exists>sent. render (length (ANSWER_KEY s)) (PDict d) = Inr sent
           \<and> show_stats s =
               (s\<lparr>logged := logged s @ [LogShowStatsCalled],
                  outbox := outbox s @ [StatsReply sent]\<rparr>, None)"
proof -
  from assms(2) obtain sent where "render (length (ANSWER_KEY s)) (PDict d) = Inr sent"
    using render_total [of d "length (ANSWER_KEY s)"] by (auto simp: list_all_iff)
  with assms(1) show ?thesis
    by (auto dest: show_stats_cached)
qed

lemma example_show_stats_leaderboard:
  "show_stats
     (example_bot\<lparr>ANSWER_KEY := replicate 10 ''a'',
        cached_stats := PDict [(KInt 1, user_record ''A'' None 5),
                               (KInt 2, user_record ''B'' None 10),
                               (KInt 3, user_record ''C'' None 3)]\<rparr>) =
     (example_bot\<lparr>ANSWER_KEY := replicate 10 ''a'',
        cached_stats := PDict [(KInt 1, user_record ''A'' None 5),
                               (KInt 2, user_record ''B'' None 10),
                               (KInt 3, user_record ''C'' None 3)],
        logged := [LogShowStatsCalled],
        outbox := [StatsReply [(PStr ''B'', PNone, 10, 100), (PStr ''A'', PNone, 5, 50),
                               (PStr ''C'', PNone, 3, 30)]]\<rparr>, None)"
proof -
  let ?s = "example_bot\<lparr>ANSWER_KEY := replicate 10 ''a'',
        cached_stats := PDict [(KInt 1, user_record ''A'' None 5),
                               (KInt 2, user_record ''B'' None 10),
                               (KInt 3, user_record ''C'' None 3)]\<rparr>"
  have "render (length (ANSWER_KEY ?s))
          (PDict [(KInt 1, user_record ''A'' None 5), (KInt 2, user_record ''B'' None 10),
                  (KInt 3, user_record ''C'' None 3)]) =
        Inr [(PStr ''B'', PNone, 10, 100), (PStr ''A'', PNone, 5, 50), (PStr ''C'', PNone, 3, 30)]"
    by (simp add: example_leaderboard)
  from show_stats_cached [OF _ this] show ?thesis
    by (simp add: example_bot_def)
qed

text \<open>
  Claim C9: the leaderboard lists the users in descending order of \<^verbatim>\<open>sum(scores)\<close>, one
  line for each item of the stats mapping, and the percentage of a line is
  \<open>percentage(sum(scores), answerKeyLength)\<close>. \<^verbatim>\<open>show_stats\<close> sends exactly these lines:
  when it returns it has sent the rendered leaderboard, and for records as the bot stores
  them, with scores up to the number of questions, it always renders and sends it.
  Totals 5, 10 and 3 are listed as 10, 5, 3, by \<open>render\<close> and by \<^verbatim>\<open>show_stats\<close>.
\<close>

theorem leaderboard_ordering:
  "(render n stats = Inr lines \<longrightarrow>
      sorted_wrt (\<lambda>a b. line_total b \<le> line_total a) lines
      \<and> list_all (\<lambda>line. calculate_percentage (line_total line) (int n)
                            = Inr (line_percentage line)) lines
      \<and> (\<exists>items. py_items stats = Inr items
            \<and> mset (map (stats_line_of n) items) = mset (map Inr lines)))
   \<and> (list_all (\<lambda>item. \<exists>f l c. snd item = user_record f l c \<and> c \<le> n) d \<longrightarrow>
        (\<exists>lines'. render n (PDict d) = Inr lines'))
   \<and> (show_stats s = (s', None) \<longrightarrow>
        (\<exists>sent. render (length (ANSWER_KEY s)) (cached_stats s') = Inr sent
           \<and> outbox s' = outbox s @ [StatsReply sent]))
   \<and> (cached_stats t = PDict d'
        \<and> list_all (\<lambda>item. \<exists>f l c. snd item = user_record f l c \<and> c \<le> length (ANSWER_KEY t)) d'
        \<longrightarrow>
        (\<exists>sent. render (length (ANSWER_KEY t)) (PDict d') = Inr sent
           \<and> sorted_wrt (\<lambda>a b. line_total b \<le> line_total a) sent
           \<and> show_stats t =
               (t\<lparr>logged := logged t @ [LogShowStatsCalled],
                  outbox := outbox t @ [StatsReply sent]\<rparr>, None)))
   \<and> render 10 (PDict [(KInt 1, user_record ''A'' None 5), (KInt 2, user_record ''B'' None 10),
                       (KInt 3, user_record ''C'' None 3)]) =
       Inr [(PStr ''B'', PNone, 10, 100), (PStr ''A'', PNone, 5, 50),
            (PStr ''C'', PNone, 3, 30)]
   \<and> show_stats
       (example_bot\<lparr>ANSWER_KEY := replicate 10 ''a'',
          cached_stats := PDict [(KInt 1, user_record ''A'' None 5),
                                 (KInt 2, user_record ''B'' None 10),
                                 (KInt 3, user_record ''C'' None 3)]\<rparr>) =
       (example_bot\<lparr>ANSWER_KEY := replicate 10 ''a'',
          cached_stats := PDict [(KInt 1, user_record ''A'' None 5),
                                 (KInt 2, user_record ''B'' None 10),
                                 (KInt 3, user_record ''C'' None 3)],
          logged := [LogShowStatsCalled],
          outbox := [StatsReply [(PStr ''B'', PNone, 10, 100), (PStr ''A'', PNone, 5, 50),
                                 (PStr ''C'', PNone, 3, 30)]]\<rparr>, None)"
proof (intro conjI impI)
  assume r: "render n stats = Inr lines"
  then show "sorted_wrt (\<lambda>a b. line_total b \<le> line_total a) lines"
    by (rule render_descending)
  from r show "list_all (\<lambda>line. calculate_percentage (line_total line) (int n)
                            = Inr (line_percentage line)) lines"
    by (rule render_descending)
  from r show "\<exists>items. py_items stats = Inr items
            \<and> mset (map (stats_line_of n) items) = mset (map Inr lines)"
    by (rule render_permutation)
next
  assume "list_all (\<lambda>item. \<exists>f l c. snd item = user_record f l c \<and> c \<le> n) d"
  then show "\<exists>lines'. render n (PDict d) = Inr lines'"
    by (intro render_total) (simp add: list_all_iff)
next
  assume "show_stats s = (s', None)"
  then show "\<exists>sent. render (length (ANSWER_KEY s)) (cached_stats s') = Inr sent
           \<and> outbox s' = outbox s @ [StatsReply sent]"
    by (rule show_stats_sends_render)
next
  assume a: "cached_stats t = PDict d'
        \<and> list_all (\<lambda>item. \<exists>f l c. snd item = user_record f l c \<and> c \<le> length (ANSWER_KEY t)) d'"
  then obtain sent where sent: "render (length (ANSWER_KEY t)) (PDict d') = Inr sent"
    and sh: "show_stats t =
               (t\<lparr>logged := logged t @ [LogShowStatsCalled],
                  outbox := outbox t @ [StatsReply sent]\<rparr>, None)"
    using show_stats_total [of t d'] by blast
  from sent have "sorted_wrt (\<lambda>a b. line_total b \<le> line_total a) sent"
    by (rule render_descending)
  with sent sh
  show "\<exists>sent. render (length (ANSWER_KEY t)) (PDict d') = Inr sent
           \<and> sorted_wrt (\<lambda>a b. line_total b \<le> line_total a) sent
           \<and> show_stats t =
               (t\<lparr>logged := logged t @ [LogShowStatsCalled],
                  outbox := outbox t @ [StatsReply sent]\<rparr>, None)"
    by blast
next
  show "render 10 (PDict [(KInt 1, user_record ''A'' None 5), (KInt 2, user_record ''B'' None 10),
                       (KInt 3, user_record ''C'' None 3)]) =
       Inr [(PStr ''B'', PNone, 10, 100), (PStr ''A'', PNone, 5, 50),
            (PStr ''C'', PNone, 3, 30)]"
    by (rule example_leaderboard)
next
  show "show_stats
       (example_bot\<lparr>ANSWER_KEY := replicate 10 ''a'',
          cached_stats := PDict [(KInt 1, user_record ''A'' None 5),
                                 (KInt 2, user_record ''B'' None 10),
                                 (KInt 3, user_record ''C'' None 3)]\<rparr>) =
       (example_bot\<lparr>ANSWER_KEY := replicate 10 ''a'',
          cached_stats := PDict [(KInt 1, user_record ''A'' None 5),
                                 (KInt 2, user_record ''B'' None 10),
                                 (KInt 3, user_record ''C'' None 3)],
          logged := [LogShowStatsCalled],
          outbox := [StatsReply [(PStr ''B'', PNone, 10, 100), (PStr ''A'', PNone, 5, 50),
                                 (PStr ''C'', PNone, 3, 30)]]\<rparr>, None)"
    by (rule example_show_stats_leaderboard)
qed

lemma example_show_stats:
  "show_stats (handle_message example_bot (example_update 7 ''abd'')) =
     ((handle_message example_bot (example_update 7 ''abd''))
        \<lparr>outbox := [ResultReply 2 3 67 [(3, ''d'')], StatsReply [(PStr ''Ann'', PNone, 2, 67)]],
         logged := [LogSubmitCalled, LogShowStatsCalled]\<rparr>, None)"
  by (simp add: example_first_submission)
     (simp add: show_stats_def load_stats_def render_def stats_key_def stats_line_of_def
        user_record_def sorted_reverse_def calculate_percentage_examples)

lemma example_records_stored:
  "list_all (\<lambda>item. \<exists>f l c. snd item = user_record f l c \<and> c \<le> 10)
     [(KInt 1, user_record ''A'' None 5), (KInt 2, user_record ''B'' None 10),
      (KInt 3, user_record ''C'' None 3)]"
proof -
  have "\<exists>f l c. user_record ''A'' None 5 = user_record f l c \<and> c \<le> 10"
    by (intro exI [of _ "''A''"] exI [of _ None] exI [of _ 5]) simp
  moreover have "\<exists>f l c. user_record ''B'' None 10 = user_record f l c \<and> c \<le> 10"
    by (intro exI [of _ "''B''"] exI [of _ None] exI [of _ 10]) simp
  moreover have "\<exists>f l c. user_record ''C'' None 3 = user_record f l c \<and> c \<le> 10"
    by (intro exI [of _ "''C''"] exI [of _ None] exI [of _ 3]) simp
  ultimately show ?thesis by simp
qed

theorem leaderboard_ordering_witness:
  "render 10 (PDict [(KInt 1, user_record ''A'' None 5), (KInt 2, user_record ''B'' None 10),
                     (KInt 3, user_record ''C'' None 3)]) =
     Inr [(PStr ''B'', PNone, 10, 100), (PStr ''A'', PNone, 5, 50), (PStr ''C'', PNone, 3, 30)]
   \<and> sorted_wrt (\<lambda>a b. line_total b \<le> line_total a)
       [(PStr ''B'', PNone, 10, 100), (PStr ''A'', PNone, 5, 50), (PStr ''C'', PNone, 3, 30)]
   \<and> list_all (\<lambda>line. calculate_percentage (line_total line) (int 10)
                         = Inr (line_percentage line))
       [(PStr ''B'', PNone, 10, 100), (PStr ''A'', PNone, 5, 50), (PStr ''C'', PNone, 3, 30)]
   \<and> list_all (\<lambda>item. \<exists>f l c. snd item = user_record f l c \<and> c \<le> 10)
       [(KInt 1, user_record ''A'' None 5), (KInt 2, user_record ''B'' None 10),
        (KInt 3, user_record ''C'' None 3)]
   \<and> show_stats (handle_message example_bot (example_update 7 ''abd'')) =
       ((handle_message example_bot (example_update 7 ''abd''))
          \<lparr>outbox := [ResultReply 2 3 67 [(3, ''d'')],
                       StatsReply [(PStr ''Ann'', PNone, 2, 67)]],
           logged := [LogSubmitCalled, LogShowStatsCalled]\<rparr>, None)
   \<and> outbox (fst (show_stats (handle_message example_bot (example_update 7 ''abd'')))) =
       outbox (handle_message example_bot (example_update 7 ''abd''))
         @ [StatsReply [(PStr ''Ann'', PNone, 2, 67)]]
   \<and> show_stats
       (example_bot\<lparr>ANSWER_KEY := replicate 10 ''a'',
          cached_stats := PDict [(KInt 1, user_record ''A'' None 5),
                                 (KInt 2, user_record ''B'' None 10),
                                 (KInt 3, user_record ''C'' None 3)]\<rparr>) =
       (example_bot\<lparr>ANSWER_KEY := replicate 10 ''a'',
          cached_stats := PDict [(KInt 1, user_record ''A'' None 5),
                                 (KInt 2, user_record ''B'' None 10),
                                 (KInt 3, user_record ''C'' None 3)],
          logged := [LogShowStatsCalled],
          outbox := [StatsReply [(PStr ''B'', PNone, 10, 100), (PStr ''A'', PNone, 5, 50),
                                 (PStr ''C'', PNone, 3, 30)]]\<rparr>, None)"
proof -
  let ?d = "[(KInt 1, user_record ''A'' None 5), (KInt 2, user_record ''B'' None 10),
             (KInt 3, user_record ''C'' None 3)]"
  let ?lines = "[(PStr ''B'', PNone, 10, 100), (PStr ''A'', PNone, 5, 50),
                 (PStr ''C'', PNone, 3, 30)]"
  let ?s = "handle_message example_bot (example_update 7 ''abd'')"
  let ?s' = "?s\<lparr>outbox := [ResultReply 2 3 67 [(3, ''d'')],
                            StatsReply [(PStr ''Ann'', PNone, 2, 67)]],
                logged := [LogSubmitCalled, LogShowStatsCalled]\<rparr>"
  let ?t = "example_bot\<lparr>ANSWER_KEY := replicate 10 ''a'', cached_stats := PDict ?d\<rparr>"
  note inst = leaderboard_ordering
    [where n = 10 and stats = "PDict ?d" and lines = ?lines and d = ?d
       and s = ?s and s' = ?s' and t = ?t and d' = ?d]
  have render: "render 10 (PDict ?d) = Inr ?lines"
    using inst by blast
  from inst render have lines:
    "sorted_wrt (\<lambda>a b. line_total b \<le> line_total a) ?lines"
    "list_all (\<lambda>line. calculate_percentage (line_total line) (int 10)
                         = Inr (line_percentage line)) ?lines"
    by blast+
  from inst example_show_stats obtain sent
    where sent: "render (length (ANSWER_KEY ?s)) (cached_stats ?s') = Inr sent"
      and out: "outbox ?s' = outbox ?s @ [StatsReply sent]"
    by blast
  from out have "sent = [(PStr ''Ann'', PNone, 2, 67)]"
    by (simp add: example_first_submission)
  with out example_show_stats
  have sh: "outbox (fst (show_stats ?s)) = outbox ?s @ [StatsReply [(PStr ''Ann'', PNone, 2, 67)]]"
    by simp
  have "cached_stats ?t = PDict ?d
        \<and> list_all (\<lambda>item. \<exists>f l c. snd item = user_record f l c \<and> c \<le> length (ANSWER_KEY ?t)) ?d"
    using example_records_stored by simp
  with inst obtain sent' where "render (length (ANSWER_KEY ?t)) (PDict ?d) = Inr sent'"
    and "show_stats ?t =
           (?t\<lparr>logged := logged ?t @ [LogShowStatsCalled],
                outbox := outbox ?t @ [StatsReply sent']\<rparr>, None)"
    by blast
  with render have "show_stats ?t =
       (?t\<lparr>logged := [LogShowStatsCalled], outbox := [StatsReply ?lines]\<rparr>, None)"
    by (simp add: example_bot_def)
  with render lines example_records_stored example_show_stats sh show ?thesis
    by simp
qed

end
